(* ===== verification/Prelude.thy ===== *)
theory Prelude
  imports Complex_Main
begin

text \<open>
  Shared vocabulary of the development: the characters the CSV code tests for, JavaScript's
  array read (which yields \<open>undefined\<close> out of range, modelled as \<open>None\<close>), and generic
  list lemmas the component theories use. The collection \<open>js_simps\<close> gathers the
  evaluation rules of the JavaScript value model (numbers, truthiness, comparisons) that
  component proofs pass to \<open>simp\<close> as a bundle.
\<close>

named_theorems js_simps "evaluation rules of the JavaScript value model"

abbreviation quote_char :: char where
  "quote_char \<equiv> CHR 0x22"

abbreviation comma_char :: char where
  "comma_char \<equiv> CHR 0x2C"

abbreviation newline_char :: char where
  "newline_char \<equiv> CHR 0x0A"

text \<open>\<open>xs[i]\<close> in JavaScript: the element, or \<open>undefined\<close> when \<open>i\<close> is out of range.\<close>

definition nth_opt :: "'a list \<Rightarrow> nat \<Rightarrow> 'a option" where
  "nth_opt xs i = (if i < length xs then Some (xs ! i) else None)"

lemma nth_opt_Nil [simp]: "nth_opt [] i = None"
  by (simp add: nth_opt_def)

lemma nth_opt_Cons_0 [simp]: "nth_opt (x # xs) 0 = Some x"
  by (simp add: nth_opt_def)

lemma nth_opt_Cons_Suc [simp]: "nth_opt (x # xs) (Suc i) = nth_opt xs i"
  by (simp add: nth_opt_def)

lemma nth_opt_append_length [simp]: "nth_opt (xs @ ys) (length xs + i) = nth_opt ys i"
  by (simp add: nth_opt_def nth_append)

text \<open>Joining lists with a separator (JavaScript's \<open>Array.prototype.join\<close>); the
  printer side of the round trips of the CSV splitter.\<close>

fun join_with :: "'a \<Rightarrow> 'a list list \<Rightarrow> 'a list" where
  "join_with c [] = []"
| "join_with c [w] = w"
| "join_with c (w # v # ws) = w @ c # join_with c (v # ws)"

lemma join_with_Cons_Cons [simp]: "ws \<noteq> [] \<Longrightarrow> join_with c (w # ws) = w @ c # join_with c ws"
  by (cases ws) auto

text \<open>Absolute errors add up: the two facts every rounding-error argument chains.\<close>

lemma abs_add_near:
  fixes a b a' b' :: "'a::linordered_idom"
  assumes "\<bar>a - a'\<bar> \<le> d1" "\<bar>b - b'\<bar> \<le> d2"
  shows "\<bar>a + b\<bar> \<le> \<bar>a'\<bar> + \<bar>b'\<bar> + d1 + d2"
proof -
  have "\<bar>a + b\<bar> \<le> \<bar>a\<bar> + \<bar>b\<bar>" by (rule abs_triangle_ineq)
  moreover have "\<bar>a\<bar> - \<bar>a'\<bar> \<le> \<bar>a - a'\<bar>" by (rule abs_triangle_ineq2)
  moreover have "\<bar>b\<bar> - \<bar>b'\<bar> \<le> \<bar>b - b'\<bar>" by (rule abs_triangle_ineq2)
  ultimately show ?thesis using assms by linarith
qed

lemma abs_diff_add_near:
  fixes a b a' b' :: "'a::linordered_idom"
  assumes "\<bar>a - a'\<bar> \<le> d1" "\<bar>b - b'\<bar> \<le> d2"
  shows "\<bar>(a + b) - (a' + b')\<bar> \<le> d1 + d2"
proof -
  have "\<bar>(a - a') + (b - b')\<bar> \<le> \<bar>a - a'\<bar> + \<bar>b - b'\<bar>" by (rule abs_triangle_ineq)
  then show ?thesis using assms by (simp add: algebra_simps)
qed
text \<open>Clamping to \<open>[0, 1]\<close> is 1-Lipschitz and keeps the side of \<open>1/2\<close>.\<close>

lemma clamp_lipschitz:
  fixes a b :: "'a::linordered_idom"
  shows "\<bar>max 0 (min 1 a) - max 0 (min 1 b)\<bar> \<le> \<bar>a - b\<bar>"
  by (auto simp: max_def min_def abs_if)

lemma half_less_clamp_iff:
  fixes a :: "'a::linordered_field"
  shows "1/2 < max 0 (min 1 a) \<longleftrightarrow> 1/2 < a"
  by (auto simp: max_def min_def)

end
