(* ===== verification/Binary64.thy ===== *)
theory Binary64
  imports Prelude
begin

text \<open>
  IEEE-754 binary64 rounding, the arithmetic of every JavaScript Number operation
  (ECMA-262 6.1.6.1: each result is the exact mathematical value rounded to the nearest
  double, ties to even). The rounding is written executably on \<open>rat\<close>:
  \<^item> \<open>nbits n\<close> is the bit length of \<open>n\<close>;
  \<^item> \<open>binade x\<close> is the exponent \<open>e\<close> with \<open>2^e \<le> x < 2^(e+1)\<close>
    (lemma \<open>binade_bounds\<close>);
  \<^item> \<open>quantum x\<close> is the spacing exponent of doubles near \<open>x\<close>: 53 significant bits,
    and never finer than the subnormal spacing \<open>2^-1074\<close>;
  \<^item> \<open>rne\<close> rounds to the nearest integer, ties to even; \<open>round_at k\<close> rounds to a
    multiple of \<open>2^k\<close>; \<open>round_rat\<close> rounds to the nearest double with unbounded
    exponent (overflow is decided by the Number model in \<open>JsNumber\<close>).
  The lemmas show that \<open>round_rat\<close> is monotone on non-negative values, symmetric under
  negation, and exact on integers below \<open>2^53\<close>: the facts the program's counters
  and its accuracy percentage rest on.
\<close>

fun nbits :: "nat \<Rightarrow> nat" where
  "nbits n = (if n = 0 then 0 else Suc (nbits (n div 2)))"

declare nbits.simps [simp del]

lemma nbits_0 [simp]: "nbits 0 = 0"
  by (subst nbits.simps) simp

lemma nbits_pos: "0 < n \<Longrightarrow> nbits n = Suc (nbits (n div 2))"
  by (subst nbits.simps) simp

lemma nbits_bounds: "0 < n \<Longrightarrow> 2 ^ (nbits n - 1) \<le> n \<and> n < 2 ^ nbits n"
proof (induction n rule: nbits.induct)
  case (1 n)
  show ?case
  proof (cases "n div 2 = 0")
    case True
    with "1.prems" have "n = 1" by auto
    then show ?thesis by (simp add: nbits_pos)
  next
    case False
    with "1.IH" "1.prems" have ih: "2 ^ (nbits (n div 2) - 1) \<le> n div 2 \<and> n div 2 < 2 ^ nbits (n div 2)"
      by simp
    from False have pos: "0 < nbits (n div 2)" by (simp add: nbits_pos)
    have eq: "nbits n = Suc (nbits (n div 2))" using "1.prems" by (rule nbits_pos)
    from pos have "(2::nat) ^ nbits (n div 2) = 2 * 2 ^ (nbits (n div 2) - 1)"
      by (metis Suc_diff_1 power_Suc)
    also from ih have "\<dots> \<le> 2 * (n div 2)" by simp
    also have "\<dots> \<le> n" by simp
    finally have "2 ^ nbits (n div 2) \<le> n" .
    moreover from ih have "n < 2 ^ Suc (nbits (n div 2))" by auto
    ultimately show ?thesis by (simp add: eq)
  qed
qed

definition binade :: "rat \<Rightarrow> int" where
  "binade x = (if 1 \<le> x then int (nbits (nat \<lfloor>x\<rfloor>)) - 1
               else - int (nbits (nat \<lceil>1 / x\<rceil> - 1)))"

lemma pow2_nat_minus1: "0 < b \<Longrightarrow> power_int (2::rat) (int b - 1) = 2 ^ (b - 1)"
proof -
  assume "0 < b"
  then have "int b - 1 = int (b - 1)" by (simp add: of_nat_diff)
  then have "power_int (2::rat) (int b - 1) = power_int 2 (int (b - 1))" by (simp only:)
  also have "\<dots> = 2 ^ (b - 1)" by (rule power_int_of_nat)
  finally show ?thesis .
qed

lemma nat_pow2_le_rat: "2 ^ k \<le> (n::nat) \<Longrightarrow> (2::rat) ^ k \<le> of_nat n"
  by (metis of_nat_le_iff of_nat_numeral of_nat_power)

lemma nat_lt_pow2_rat: "(n::nat) < 2 ^ k \<Longrightarrow> of_nat n + 1 \<le> (2::rat) ^ k"
proof -
  assume "n < 2 ^ k"
  then have "n + 1 \<le> 2 ^ k" by simp
  then have "of_nat (n + 1) \<le> (of_nat (2 ^ k) :: rat)" by (simp only: of_nat_le_iff)
  then show ?thesis by simp
qed

lemma binade_ge1:
  assumes "1 \<le> x"
  shows "power_int 2 (binade x) \<le> x \<and> x < power_int 2 (binade x + 1)"
proof -
  define n where "n = nat \<lfloor>x\<rfloor>"
  have n_pos: "0 < n" using assms by (simp add: n_def)
  have x_n: "of_nat n \<le> x" "x < of_nat n + 1" using assms by (simp_all add: n_def) linarith+
  from nbits_bounds [OF n_pos] have b: "2 ^ (nbits n - 1) \<le> n" "n < 2 ^ nbits n" by auto
  from n_pos have bpos: "0 < nbits n" by (simp add: nbits_pos)
  have lo: "(2::rat) ^ (nbits n - 1) \<le> of_nat n"
    using b(1) by (rule nat_pow2_le_rat)
  have "of_nat n + 1 \<le> (2::rat) ^ nbits n"
    using b(2) by (rule nat_lt_pow2_rat)
  then have hi: "x < (2::rat) ^ nbits n" using x_n(2) by linarith
  have e: "binade x = int (nbits n) - 1" using assms by (simp add: binade_def n_def)
  have p1: "power_int (2::rat) (binade x) = 2 ^ (nbits n - 1)"
    using bpos by (simp only: e pow2_nat_minus1)
  have p2: "power_int (2::rat) (binade x + 1) = 2 ^ nbits n"
    by (simp add: e)
  show ?thesis using lo x_n(1) hi by (simp only: p1 p2) (blast intro: order_trans)
qed

lemma binade_lt1:
  assumes "0 < x" "x < 1"
  shows "power_int 2 (binade x) \<le> x \<and> x < power_int 2 (binade x + 1)"
proof -
  define c where "c = \<lceil>1 / x\<rceil>"
  define m where "m = nat c - 1"
  have inv: "1 < 1 / x" using assms by simp
  then have c2: "2 \<le> c" unfolding c_def by linarith
  have m_pos: "0 < m" using c2 by (simp add: m_def)
  have cm: "of_nat m = of_int c - (1::rat)" using c2 by (simp add: m_def of_nat_diff)
  have c_ge: "1 / x \<le> of_int c" and c_lt: "of_int c < 1 / x + 1"
    unfolding c_def by (simp_all add: ceiling_correct) linarith
  from nbits_bounds [OF m_pos] have b: "2 ^ (nbits m - 1) \<le> m" "m < 2 ^ nbits m" by auto
  have j_pos: "0 < nbits m" using m_pos by (simp add: nbits_pos)
  have b1: "(2::rat) ^ (nbits m - 1) \<le> of_nat m"
    using b(1) by (rule nat_pow2_le_rat)
  have b2: "of_nat m + 1 \<le> (2::rat) ^ nbits m"
    using b(2) by (rule nat_lt_pow2_rat)
  have e: "binade x = - int (nbits m)" using assms by (simp add: binade_def c_def m_def)
  have "1 / x \<le> 2 ^ nbits m" using c_ge b2 cm by linarith
  then have lo: "1 / 2 ^ nbits m \<le> x" using assms by (simp add: field_simps)
  have "2 ^ (nbits m - 1) < 1 / x" using b1 cm c_lt by linarith
  then have hi: "x < 1 / 2 ^ (nbits m - 1)" using assms by (simp add: field_simps)
  have p1: "power_int (2::rat) (- int (nbits m)) = 1 / 2 ^ nbits m"
    by (simp only: power_int_minus power_int_of_nat inverse_eq_divide)
  have p2: "power_int (2::rat) (- int (nbits m) + 1) = 1 / 2 ^ (nbits m - 1)"
  proof -
    have "- int (nbits m) + 1 = - int (nbits m - 1)" using j_pos by simp
    then show ?thesis by (simp only: power_int_minus power_int_of_nat inverse_eq_divide)
  qed
  show ?thesis unfolding e p1 p2 using lo hi by (rule conjI)
qed

lemma binade_bounds:
  "0 < x \<Longrightarrow> power_int 2 (binade x) \<le> x \<and> x < power_int 2 (binade x + 1)"
  using binade_ge1 binade_lt1 by (cases "1 \<le> x") auto

lemma pow2_less_imp_less: "power_int (2::rat) m < power_int 2 n \<Longrightarrow> m < n"
  using power_int_increasing [of n m "2::rat"] by (cases "m < n") auto

lemma binade_mono:
  assumes "0 < x" "x \<le> y"
  shows "binade x \<le> binade y"
proof -
  have "power_int (2::rat) (binade x) \<le> x" using binade_bounds [OF assms(1)] by simp
  also have "x \<le> y" by fact
  also have "y < power_int 2 (binade y + 1)" using binade_bounds assms by auto
  finally have "binade x < binade y + 1" by (rule pow2_less_imp_less)
  then show ?thesis by simp
qed

definition rne :: "rat \<Rightarrow> int" where
  "rne x = (let f = \<lfloor>x\<rfloor>; d = x - of_int f in
     if d < 1/2 then f else if 1/2 < d then f + 1 else if even f then f else f + 1)"

lemma rne_cases: "rne x = \<lfloor>x\<rfloor> \<or> rne x = \<lfloor>x\<rfloor> + 1"
  by (simp add: rne_def Let_def)

lemma rne_of_int [simp]: "rne (of_int n) = n"
  by (simp add: rne_def)

lemma rne_mono:
  assumes "x \<le> y"
  shows "rne x \<le> rne y"
proof (cases "\<lfloor>x\<rfloor> = \<lfloor>y\<rfloor>")
  case True
  then have "x - of_int \<lfloor>x\<rfloor> \<le> y - of_int \<lfloor>y\<rfloor>" using assms by simp
  with True show ?thesis by (auto simp: rne_def Let_def)
next
  case False
  with assms have "\<lfloor>x\<rfloor> < \<lfloor>y\<rfloor>" by (meson floor_mono order.not_eq_order_implies_strict)
  with rne_cases [of x] rne_cases [of y] show ?thesis by linarith
qed

lemma rne_near: "\<bar>of_int (rne x) - x\<bar> \<le> 1/2"
proof -
  have "of_int \<lfloor>x\<rfloor> \<le> x" "x < of_int \<lfloor>x\<rfloor> + 1" by linarith+
  then show ?thesis by (auto simp: rne_def Let_def)
qed

definition round_at :: "int \<Rightarrow> rat \<Rightarrow> rat" where
  "round_at k x = of_int (rne (x / power_int 2 k)) * power_int 2 k"

lemma round_at_mono: "x \<le> y \<Longrightarrow> round_at k x \<le> round_at k y"
  unfolding round_at_def
  by (intro mult_right_mono of_int_le_iff [THEN iffD2] rne_mono divide_right_mono) simp_all

lemma round_at_grid [simp]: "round_at k (of_int n * power_int 2 k) = of_int n * power_int 2 k"
  by (simp add: round_at_def)

lemma round_at_le_grid: "x \<le> of_int n * power_int 2 k \<Longrightarrow> round_at k x \<le> of_int n * power_int 2 k"
  using round_at_mono [of x "of_int n * power_int 2 k" k] by simp

lemma round_at_ge_grid: "of_int n * power_int 2 k \<le> x \<Longrightarrow> of_int n * power_int 2 k \<le> round_at k x"
  using round_at_mono [of "of_int n * power_int 2 k" x k] by simp

lemma pow2_grid: "k \<le> j \<Longrightarrow> power_int (2::rat) j = of_int (2 ^ nat (j - k)) * power_int 2 k"
proof -
  assume "k \<le> j"
  then have "j = int (nat (j - k)) + k" by simp
  then have "power_int (2::rat) j = power_int 2 (int (nat (j - k))) * power_int 2 k"
    by (metis power_int_add zero_neq_numeral)
  also have "power_int (2::rat) (int (nat (j - k))) = of_int (2 ^ nat (j - k))"
    by (simp only: power_int_of_nat of_int_power of_int_numeral)
  finally show ?thesis .
qed

lemma round_at_nonneg: "0 \<le> x \<Longrightarrow> 0 \<le> round_at k x"
  using round_at_ge_grid [of 0 k x] by simp

lemma rne_uminus: "rne (- x) = - rne x"
proof (cases "x = of_int \<lfloor>x\<rfloor>")
  case True
  then show ?thesis by (metis of_int_minus rne_of_int)
next
  case False
  define f where "f = \<lfloor>x\<rfloor>"
  define d where "d = x - of_int f"
  have d01: "0 < d" "d < 1" using False unfolding d_def f_def
    by (metis diff_gt_0_iff_gt floor_less_iff less_le of_int_floor_le) linarith
  have fl: "\<lfloor>- x\<rfloor> = - f - 1"
    by (rule floor_unique) (use d01 in \<open>simp_all add: d_def\<close>)
  have d': "- x - of_int (- f - 1) = 1 - d" by (simp add: d_def)
  have rx: "rne x = (if d < 1/2 then f else if 1/2 < d then f + 1 else if even f then f else f + 1)"
    by (simp add: rne_def Let_def f_def d_def)
  have rmx: "rne (- x) = (if 1 - d < 1/2 then - f - 1 else if 1/2 < 1 - d then - f - 1 + 1
                          else if even (- f - 1) then - f - 1 else - f - 1 + 1)"
    by (simp only: rne_def Let_def fl d')
  show ?thesis
  proof (cases "d = 1/2")
    case True
    then show ?thesis by (simp add: rx rmx)
  next
    case False
    then show ?thesis by (auto simp: rx rmx)
  qed
qed

definition quantum :: "rat \<Rightarrow> int" where
  "quantum x = max (binade \<bar>x\<bar> - 52) (-1074)"

definition round_rat :: "rat \<Rightarrow> rat" where
  "round_rat x = (if x = 0 then 0 else round_at (quantum x) x)"

lemma quantum_uminus [simp]: "quantum (- x) = quantum x"
  by (simp add: quantum_def)

lemma round_at_uminus: "round_at k (- x) = - round_at k x"
  by (simp add: round_at_def rne_uminus)

lemma round_rat_uminus: "round_rat (- x) = - round_rat x"
  by (simp add: round_rat_def round_at_uminus)

lemma round_rat_0 [simp]: "round_rat 0 = 0"
  by (simp add: round_rat_def)

lemma round_rat_nonneg: "0 \<le> x \<Longrightarrow> 0 \<le> round_rat x"
  by (simp add: round_rat_def round_at_nonneg)

lemma round_rat_mono:
  assumes "0 \<le> x" "x \<le> y"
  shows "round_rat x \<le> round_rat y"
proof (cases "x = 0")
  case True
  with assms show ?thesis by (simp add: round_rat_nonneg)
next
  case False
  with assms have x0: "0 < x" and y0: "0 < y" by auto
  have bxy: "binade x \<le> binade y" using x0 assms(2) by (rule binade_mono)
  show ?thesis
  proof (cases "quantum x = quantum y")
    case True
    with x0 y0 assms show ?thesis by (simp add: round_rat_def round_at_mono)
  next
    case False
    have qxy: "quantum x < quantum y" using False bxy x0 y0 by (auto simp: quantum_def max_def)
    then have qy: "quantum y = binade y - 52" using x0 y0 by (auto simp: quantum_def max_def split: if_splits)
    have bneq: "binade x < binade y" using False bxy x0 y0 by (auto simp: quantum_def max_def split: if_splits)
    define B where "B = power_int (2::rat) (binade y)"
    have "x < power_int 2 (binade x + 1)" using binade_bounds [OF x0] by simp
    also have "\<dots> \<le> B" unfolding B_def using bneq by (intro power_int_increasing) simp_all
    finally have xB: "x \<le> B" by simp
    have yB: "B \<le> y" using binade_bounds [OF y0] by (simp add: B_def)
    have Bx: "B = of_int (2 ^ nat (binade y - quantum x)) * power_int 2 (quantum x)"
      unfolding B_def using qxy qy by (intro pow2_grid) simp
    have By: "B = of_int (2 ^ nat (binade y - quantum y)) * power_int 2 (quantum y)"
      unfolding B_def using qy by (intro pow2_grid) simp
    have "round_at (quantum x) x \<le> of_int (2 ^ nat (binade y - quantum x)) * power_int 2 (quantum x)"
      by (rule round_at_le_grid) (simp only: Bx [symmetric] xB)
    also have "\<dots> = B" by (simp only: Bx)
    also have "B = of_int (2 ^ nat (binade y - quantum y)) * power_int 2 (quantum y)" by (rule By)
    also have "\<dots> \<le> round_at (quantum y) y"
      by (rule round_at_ge_grid) (simp only: By [symmetric] yB)
    finally show ?thesis using x0 y0 by (simp add: round_rat_def)
  qed
qed

lemma round_rat_exact:
  assumes "x = of_int n * power_int 2 k" "quantum x \<le> k"
  shows "round_rat x = x"
proof (cases "x = 0")
  case False
  have "x = of_int (n * 2 ^ nat (k - quantum x)) * power_int 2 (quantum x)"
    using assms pow2_grid [OF assms(2)] by simp
  then have "round_at (quantum x) x = x" by (metis round_at_grid)
  with False show ?thesis by (simp add: round_rat_def)
qed (simp add: round_rat_def)

lemma round_rat_int:
  assumes "\<bar>n\<bar> < 2 ^ 53"
  shows "round_rat (of_int n) = of_int n"
proof (cases "n = 0")
  case False
  then have pos: "0 < \<bar>of_int n :: rat\<bar>" by simp
  have "power_int (2::rat) (binade \<bar>of_int n\<bar>) \<le> \<bar>of_int n\<bar>" using binade_bounds [OF pos] by simp
  also have "\<bar>of_int n :: rat\<bar> < power_int 2 53"
    using assms by (simp add: power_int_numeral)
  finally have "binade \<bar>of_int n :: rat\<bar> < 53" by (rule pow2_less_imp_less)
  then have "quantum (of_int n :: rat) \<le> 0" by (simp add: quantum_def)
  then show ?thesis by (intro round_rat_exact [where n = n]) simp_all
qed (simp add: round_rat_def)

lemma round_rat_Ints: "round_rat (of_int n) \<in> \<int>"
proof (cases "\<bar>n\<bar> < 2 ^ 53")
  case True
  then show ?thesis by (simp add: round_rat_int)
next
  case False
  then have big: "power_int 2 53 \<le> \<bar>of_int n :: rat\<bar>"
    by (simp add: power_int_numeral flip: of_int_abs)
  then have pos: "0 < \<bar>of_int n :: rat\<bar>" by (rule less_le_trans [rotated]) simp
  have "power_int (2::rat) 53 < power_int 2 (binade \<bar>of_int n\<bar> + 1)"
    using big binade_bounds [OF pos] by linarith
  then have "53 < binade \<bar>of_int n :: rat\<bar> + 1" by (rule pow2_less_imp_less)
  then have k: "0 \<le> quantum (of_int n :: rat)" by (simp add: quantum_def)
  have "power_int (2::rat) (quantum (of_int n)) = 2 ^ nat (quantum (of_int n :: rat))"
    using k by (metis nat_0_le power_int_of_nat)
  then show ?thesis
    by (simp add: round_rat_def round_at_def)
qed

subsection \<open>Rounding error\<close>

lemma round_at_err: "\<bar>round_at k x - x\<bar> \<le> power_int 2 k / 2"
proof -
  have p: "0 < power_int (2::rat) k" by simp
  have "\<bar>of_int (rne (x / power_int 2 k)) - x / power_int 2 k\<bar> \<le> 1/2" by (rule rne_near)
  then have "\<bar>of_int (rne (x / power_int 2 k)) - x / power_int 2 k\<bar> * power_int 2 k \<le> 1/2 * power_int 2 k"
    using p by (intro mult_right_mono) simp_all
  moreover have "\<bar>of_int (rne (x / power_int 2 k)) - x / power_int 2 k\<bar> * power_int 2 k = \<bar>round_at k x - x\<bar>"
  proof -
    have "(of_int (rne (x / power_int 2 k)) - x / power_int 2 k) * power_int 2 k = round_at k x - x"
      using p by (simp add: round_at_def left_diff_distrib)
    then show ?thesis using p by (metis abs_mult abs_of_pos)
  qed
  ultimately show ?thesis by simp
qed

lemma round_rat_err:
  assumes "\<bar>x\<bar> < power_int 2 j" "-1021 \<le> j"
  shows "\<bar>round_rat x - x\<bar> \<le> power_int 2 (j - 54)"
proof (cases "x = 0")
  case False
  then have pos: "0 < \<bar>x\<bar>" by simp
  have "power_int (2::rat) (binade \<bar>x\<bar>) \<le> \<bar>x\<bar>" using binade_bounds [OF pos] by simp
  also have "\<dots> < power_int 2 j" by fact
  finally have "binade \<bar>x\<bar> < j" by (rule pow2_less_imp_less)
  then have q: "quantum x \<le> j - 53" using assms(2) by (simp add: quantum_def)
  have "\<bar>round_rat x - x\<bar> \<le> power_int 2 (quantum x) / 2"
    using False round_at_err by (simp add: round_rat_def)
  also have "\<dots> \<le> power_int 2 (j - 53) / 2"
    using q by (intro divide_right_mono power_int_increasing) simp_all
  also have "power_int (2::rat) (j - 53) / 2 = power_int 2 (j - 54)"
  proof -
    have "power_int (2::rat) (j - 53) = power_int 2 (j - 54) * 2"
      using power_int_add_1 [of "2::rat" "j - 54"] by simp
    then show ?thesis by simp
  qed
  finally show ?thesis .
qed simp

end
