(* ===== verification/JsNumber.thy ===== *)
theory JsNumber
  imports Binary64
begin

text \<open>
  The JavaScript Number type (ECMA-262 6.1.6.1) as the program uses it. A finite Number
  is a double, held as the rational it denotes; \<open>NaN\<close> and the two infinities are
  constructors. The two zeros are merged into \<open>Fin 0\<close>: the program never observes the
  sign of a zero (it only tests zeros for truthiness, compares them, or divides by a count
  that is \<open>+0\<close>), so nothing it computes depends on the merge.
  \<^item> \<open>fround\<close> is the Number value of an exact result (ECMA-262 writes it F(x)):
    round to the nearest double, overflowing to an infinity at \<open>2^1024\<close>;
  \<^item> \<open>js_add\<close>, \<open>js_sub\<close>, \<open>js_mul\<close>, \<open>js_div\<close> are Number::add, ::subtract,
    ::multiply and ::divide, with IEEE's NaN and infinity cases;
  \<^item> \<open>js_less\<close> is IsLessThan, false whenever a NaN is involved, and \<open>js_ge\<close> is
    \<open>>=\<close>; \<open>js_eq\<close> is \<open>===\<close>;
  \<^item> \<open>truthy_num\<close> and \<open>js_or_num\<close> give \<open>x || d\<close> on Numbers: \<open>0\<close> and
    \<open>NaN\<close> are falsy;
  \<^item> \<open>js_min\<close> and \<open>js_max\<close> are \<open>Math.min\<close> and \<open>Math.max\<close> of two arguments.
\<close>

datatype jsnum = Fin rat | NaN | PosInf | NegInf

definition fround :: "rat \<Rightarrow> jsnum" where
  "fround x = (let r = round_rat x in
     if r \<noteq> 0 \<and> 1024 \<le> binade \<bar>r\<bar> then (if 0 < x then PosInf else NegInf) else Fin r)"

fun js_neg :: "jsnum \<Rightarrow> jsnum" where
  "js_neg (Fin a) = Fin (- a)"
| "js_neg NaN = NaN"
| "js_neg PosInf = NegInf"
| "js_neg NegInf = PosInf"

fun js_add :: "jsnum \<Rightarrow> jsnum \<Rightarrow> jsnum" where
  "js_add (Fin a) (Fin b) = fround (a + b)"
| "js_add NaN y = NaN"
| "js_add x NaN = NaN"
| "js_add PosInf NegInf = NaN"
| "js_add NegInf PosInf = NaN"
| "js_add PosInf y = PosInf"
| "js_add NegInf y = NegInf"
| "js_add x PosInf = PosInf"
| "js_add x NegInf = NegInf"

definition js_sub :: "jsnum \<Rightarrow> jsnum \<Rightarrow> jsnum" where
  "js_sub x y = js_add x (js_neg y)"

fun js_mul :: "jsnum \<Rightarrow> jsnum \<Rightarrow> jsnum" where
  "js_mul (Fin a) (Fin b) = fround (a * b)"
| "js_mul NaN y = NaN"
| "js_mul x NaN = NaN"
| "js_mul (Fin a) y = (if a = 0 then NaN else if (0 < a) = (y = PosInf) then PosInf else NegInf)"
| "js_mul x (Fin b) = (if b = 0 then NaN else if (0 < b) = (x = PosInf) then PosInf else NegInf)"
| "js_mul x y = (if x = y then PosInf else NegInf)"

fun js_div :: "jsnum \<Rightarrow> jsnum \<Rightarrow> jsnum" where
  "js_div (Fin a) (Fin b) =
     (if b = 0 then (if a = 0 then NaN else if 0 < a then PosInf else NegInf) else fround (a / b))"
| "js_div NaN y = NaN"
| "js_div x NaN = NaN"
| "js_div (Fin a) y = Fin 0"
| "js_div x (Fin b) = (if (0 \<le> b) = (x = PosInf) then PosInf else NegInf)"
| "js_div x y = NaN"

fun js_less :: "jsnum \<Rightarrow> jsnum \<Rightarrow> bool" where
  "js_less (Fin a) (Fin b) = (a < b)"
| "js_less NaN y = False"
| "js_less x NaN = False"
| "js_less NegInf y = (y \<noteq> NegInf)"
| "js_less x PosInf = (x \<noteq> PosInf)"
| "js_less PosInf y = False"
| "js_less x NegInf = False"

definition js_ge :: "jsnum \<Rightarrow> jsnum \<Rightarrow> bool" where
  "js_ge x y = (x \<noteq> NaN \<and> y \<noteq> NaN \<and> \<not> js_less x y)"

fun js_eq :: "jsnum \<Rightarrow> jsnum \<Rightarrow> bool" where
  "js_eq (Fin a) (Fin b) = (a = b)"
| "js_eq PosInf PosInf = True"
| "js_eq NegInf NegInf = True"
| "js_eq x y = False"

fun truthy_num :: "jsnum \<Rightarrow> bool" where
  "truthy_num (Fin a) = (a \<noteq> 0)"
| "truthy_num NaN = False"
| "truthy_num PosInf = True"
| "truthy_num NegInf = True"

definition js_or_num :: "jsnum \<Rightarrow> jsnum \<Rightarrow> jsnum" where
  "js_or_num x d = (if truthy_num x then x else d)"

definition js_min :: "jsnum \<Rightarrow> jsnum \<Rightarrow> jsnum" where
  "js_min x y = (if x = NaN \<or> y = NaN then NaN else if js_less y x then y else x)"

definition js_max :: "jsnum \<Rightarrow> jsnum \<Rightarrow> jsnum" where
  "js_max x y = (if x = NaN \<or> y = NaN then NaN else if js_less x y then y else x)"

declare js_sub_def [js_simps] js_ge_def [js_simps] js_or_num_def [js_simps]
  js_min_def [js_simps] js_max_def [js_simps]

subsection \<open>Exactness and monotonicity of \<open>fround\<close>\<close>

text \<open>The overflow test on the binade is IEEE's: a rounded magnitude of at least \<open>2^1024\<close>.\<close>

lemma binade_ge_iff:
  assumes "0 < y"
  shows "k \<le> binade y \<longleftrightarrow> power_int 2 k \<le> y"
proof
  assume "k \<le> binade y"
  then have "power_int (2::rat) k \<le> power_int 2 (binade y)" by (intro power_int_increasing) simp_all
  also have "\<dots> \<le> y" using binade_bounds [OF assms] by simp
  finally show "power_int 2 k \<le> y" .
next
  assume "power_int 2 k \<le> y"
  also have "y < power_int 2 (binade y + 1)" using binade_bounds [OF assms] by simp
  finally have "k < binade y + 1" by (rule pow2_less_imp_less)
  then show "k \<le> binade y" by simp
qed

lemma fround_overflow_iff:
  "(round_rat x \<noteq> 0 \<and> 1024 \<le> binade \<bar>round_rat x\<bar>) \<longleftrightarrow> 2 ^ 1024 \<le> \<bar>round_rat x\<bar>"
proof (cases "round_rat x = 0")
  case False
  then have "0 < \<bar>round_rat x\<bar>" by simp
  from binade_ge_iff [OF this, of 1024] False show ?thesis by (simp add: power_int_numeral)
qed simp

lemma fround_eq: "fround x = (if 2 ^ 1024 \<le> \<bar>round_rat x\<bar> then (if 0 < x then PosInf else NegInf)
                              else Fin (round_rat x))"
  unfolding fround_def Let_def fround_overflow_iff by (rule refl)

lemma fround_small: "\<bar>round_rat x\<bar> < 2 ^ 1024 \<Longrightarrow> fround x = Fin (round_rat x)"
  by (simp add: fround_eq)

lemma fround_int: "\<bar>n\<bar> < 2 ^ 53 \<Longrightarrow> fround (of_int n) = Fin (of_int n)"
proof -
  assume n: "\<bar>n\<bar> < 2 ^ 53"
  then have "\<bar>of_int n :: rat\<bar> < 2 ^ 53"
    by (metis of_int_abs of_int_less_iff of_int_numeral of_int_power)
  also have "(2::rat) ^ 53 < 2 ^ 1024" by simp
  finally show ?thesis using n by (simp add: fround_small round_rat_int)
qed

lemma fround_nat: "n < 2 ^ 53 \<Longrightarrow> fround (of_nat n) = Fin (of_nat n)"
  using fround_int [of "int n"] by simp

lemma fround_zero [simp]: "fround 0 = Fin 0"
  using fround_nat [of 0] by simp

lemma fround_mono_nonneg:
  assumes "0 \<le> x" "x \<le> y" "fround y = Fin ry"
  shows "fround x = Fin (round_rat x) \<and> 0 \<le> round_rat x \<and> round_rat x \<le> ry"
proof -
  have ry: "round_rat y = ry" "\<bar>round_rat y\<bar> < 2 ^ 1024"
    using assms(3) by (auto simp: fround_eq split: if_splits)
  have le: "round_rat x \<le> round_rat y" using assms(1,2) by (rule round_rat_mono)
  have nn: "0 \<le> round_rat x" using assms(1) by (rule round_rat_nonneg)
  with le ry have "\<bar>round_rat x\<bar> < 2 ^ 1024" by linarith
  with nn le ry show ?thesis by (simp add: fround_small)
qed

subsection \<open>Rounding error of small results\<close>

lemma fround_err:
  assumes "\<bar>x\<bar> < power_int 2 j" "-1021 \<le> j" "j \<le> 1000"
  shows "fround x = Fin (round_rat x) \<and> \<bar>round_rat x - x\<bar> \<le> power_int 2 (j - 54)"
proof -
  have err: "\<bar>round_rat x - x\<bar> \<le> power_int 2 (j - 54)" using assms(1,2) by (rule round_rat_err)
  have "power_int (2::rat) (j - 54) \<le> power_int 2 j" by (intro power_int_increasing) simp_all
  with err assms(1) have "\<bar>round_rat x\<bar> < 2 * power_int 2 j" by linarith
  also have "2 * power_int (2::rat) j = power_int 2 (j + 1)"
    using power_int_add_1' [of "2::rat" j] by simp
  also have "\<dots> \<le> power_int 2 1024" using assms(3) by (intro power_int_increasing) simp_all
  finally have "\<bar>round_rat x\<bar> < 2 ^ 1024" by (simp add: power_int_numeral)
  with err show ?thesis by (simp add: fround_small)
qed

lemma pow2_neg_numeral: "power_int (2::rat) (- numeral n) = 1 / 2 ^ numeral n"
  by (simp only: power_int_minus power_int_numeral inverse_eq_divide)

lemma fround_err_1:
  assumes "\<bar>x\<bar> < 1"
  shows "fround x = Fin (round_rat x) \<and> \<bar>round_rat x - x\<bar> \<le> 1/2^54"
proof -
  have "\<bar>x\<bar> < power_int 2 0" using assms by simp
  from fround_err [OF this] have "fround x = Fin (round_rat x) \<and> \<bar>round_rat x - x\<bar> \<le> power_int 2 (- 54)"
    by simp
  then show ?thesis by (simp only: pow2_neg_numeral)
qed

lemma fround_err_2:
  assumes "\<bar>x\<bar> < 2"
  shows "fround x = Fin (round_rat x) \<and> \<bar>round_rat x - x\<bar> \<le> 1/2^53"
proof -
  have "\<bar>x\<bar> < power_int 2 1" using assms by simp
  from fround_err [OF this] have "fround x = Fin (round_rat x) \<and> \<bar>round_rat x - x\<bar> \<le> power_int 2 (- 53)"
    by simp
  then show ?thesis by (simp only: pow2_neg_numeral)
qed

end
