(* ===== verification/Interfaces.thy ===== *)
theory Interfaces
  imports JsNumber
begin

text \<open>
  The TypeScript interfaces of TitanicPredictor.tsx (lines 4--34) and the value the scorer
  returns. An object property that is absent reads as \<open>undefined\<close>, modelled as
  \<open>None\<close>; the parser builds a passenger from an empty object \<open>{}\<close> one property at a
  time, so every property of \<open>passenger\<close> is optional (TypeScript's
  \<open>Partial<Passenger>\<close>, which is also what the scorer accepts). \<open>Age\<close> and
  \<open>Fare\<close> are \<open>number | null\<close>: \<open>nullable_num\<close>. Properties whose names are not
  among the interface's are kept in \<open>other_props\<close>, as the parser's default branch stores
  them on the object.
\<close>

datatype nullable_num = JNull | JNum jsnum

record passenger =
  PassengerId :: "jsnum option"
  Survived :: "jsnum option"
  Pclass :: "jsnum option"
  Name :: "string option"
  Sex :: "string option"
  Age :: "nullable_num option"
  SibSp :: "jsnum option"
  Parch :: "jsnum option"
  Ticket :: "string option"
  Fare :: "nullable_num option"
  Cabin :: "string option"
  Embarked :: "string option"
  other_props :: "string \<rightharpoonup> string"

text \<open>The empty object literal \<open>{}\<close> of the parser (line 77).\<close>

definition empty_passenger :: passenger where
  "empty_passenger = \<lparr>PassengerId = None, Survived = None, Pclass = None, Name = None,
     Sex = None, Age = None, SibSp = None, Parch = None, Ticket = None, Fare = None,
     Cabin = None, Embarked = None, other_props = Map.empty\<rparr>"

record model_stats =
  accuracy :: jsnum
  totalPassengers :: jsnum
  survivedCount :: jsnum
  deathCount :: jsnum

record prediction_input =
  pclass :: jsnum
  sex :: string
  age :: jsnum
  sibsp :: jsnum
  parch :: jsnum
  fare :: jsnum
  embarked :: string

text \<open>The scorer's result \<open>{ probability: number; survived: boolean }\<close> (line 39, 148).\<close>

record prediction =
  probability :: jsnum
  survived :: bool

end
