(* ===== verification/Scorer.thy ===== *)
theory Scorer
  imports Interfaces
begin

text \<open>
  \<open>predictSurvival\<close> (TitanicPredictor.tsx, lines 148--198): an additive score started at
  0.5 and adjusted by five rules, each an \<open>if\<close>/\<open>else if\<close> chain of the source, then
  clamped to \<open>[0, 1]\<close> with \<open>Math.max(0, Math.min(1, score))\<close>. Every \<open>+=\<close> and
  \<open>-=\<close> is a Number addition or subtraction, so each step rounds to a double; the literals
  0.35, 0.25, 0.2, 0.05, 0.15 and 0.1 are themselves the doubles nearest to those decimals
  (\<open>fround\<close> of the decimal), and the exactly representable literals (0.5 and the
  integers) are written as \<open>Fin\<close>. The defaults of lines 168, 176 and 184 use
  \<open>||\<close>, which replaces every falsy value (absent, \<open>null\<close>, \<open>0\<close>, \<open>NaN\<close>).
\<close>

text \<open>\<open>passenger.Pclass === k\<close>: an absent property is \<open>undefined\<close>, never equal to a Number.\<close>

definition pclass_is :: "passenger \<Rightarrow> rat \<Rightarrow> bool" where
  "pclass_is p k = (case Pclass p of Some n \<Rightarrow> js_eq n (Fin k) | None \<Rightarrow> False)"

text \<open>\<open>passenger.Age || d\<close> and \<open>passenger.Fare || d\<close> (lines 168, 184).\<close>

definition nullable_or :: "nullable_num option \<Rightarrow> jsnum \<Rightarrow> jsnum" where
  "nullable_or v d = (case v of Some (JNum n) \<Rightarrow> js_or_num n d | _ \<Rightarrow> d)"

text \<open>\<open>(passenger.SibSp || 0)\<close> and \<open>(passenger.Parch || 0)\<close> (line 176).\<close>

definition num_or :: "jsnum option \<Rightarrow> jsnum \<Rightarrow> jsnum" where
  "num_or v d = (case v of Some n \<Rightarrow> js_or_num n d | None \<Rightarrow> d)"

definition familySize :: "passenger \<Rightarrow> jsnum" where
  "familySize p = js_add (num_or (SibSp p) (Fin 0)) (num_or (Parch p) (Fin 0))"

definition predictSurvival :: "passenger \<Rightarrow> prediction" where
  "predictSurvival p = (
     let score = Fin (1/2);
         score = (if Sex p = Some ''female'' then js_add score (fround (35/100))
                  else js_sub score (fround (25/100)));
         score = (if pclass_is p 1 then js_add score (fround (2/10))
                  else if pclass_is p 2 then js_add score (fround (5/100))
                  else js_sub score (fround (15/100)));
         age = nullable_or (Age p) (Fin 30);
         score = (if js_less age (Fin 16) then js_add score (fround (1/10))
                  else if js_less (Fin 60) age then js_sub score (fround (1/10))
                  else score);
         fs = familySize p;
         score = (if js_less (Fin 0) fs \<and> js_less fs (Fin 4) then js_add score (fround (5/100))
                  else if js_ge fs (Fin 4) then js_sub score (fround (1/10))
                  else score);
         fare = nullable_or (Fare p) (Fin 15);
         score = (if js_less (Fin 50) fare then js_add score (fround (1/10))
                  else if js_less fare (Fin 10) then js_sub score (fround (5/100))
                  else score);
         prob = js_max (Fin 0) (js_min (Fin 1) score)
     in \<lparr>probability = prob, survived = js_less (Fin (1/2)) prob\<rparr>)"

subsection \<open>The score as a chain of adjustments\<close>

text \<open>
  Each rule of the scorer contributes one adjustment: add a literal, subtract one, or keep
  the score. \<open>sex_adj\<close> \<dots> \<open>fare_adj\<close> select the adjustment by the source's guards,
  \<open>apply_adj\<close> performs it in Number arithmetic, and \<open>predictSurvival_raw_score\<close>
  shows the scorer is the clamped fold of its five adjustments. \<open>spec_score\<close> is the
  same sum in exact arithmetic: the contract of the spec (section 4.2), which adds the
  decimal constants exactly. \<open>chain_err\<close> bounds the distance of the two: each Number
  addition of values below 2 in magnitude is off by at most \<open>2^-53\<close>, each literal by at
  most \<open>2^-54\<close>.
\<close>

datatype adj = Plus rat | Minus rat | Keep

fun apply_adj :: "jsnum \<Rightarrow> adj \<Rightarrow> jsnum" where
  "apply_adj s (Plus c) = js_add s (fround c)"
| "apply_adj s (Minus c) = js_sub s (fround c)"
| "apply_adj s Keep = s"

fun adj_val :: "adj \<Rightarrow> rat" where
  "adj_val (Plus c) = c"
| "adj_val (Minus c) = - c"
| "adj_val Keep = 0"

fun adj_ok :: "adj \<Rightarrow> bool" where
  "adj_ok (Plus c) = (0 < c \<and> c < 1)"
| "adj_ok (Minus c) = (0 < c \<and> c < 1)"
| "adj_ok Keep = True"

lemma apply_adj_err:
  assumes ok: "adj_ok a" and xe: "\<bar>x - e\<bar> \<le> \<epsilon>"
    and bnd: "\<bar>e\<bar> + \<bar>adj_val a\<bar> + \<epsilon> + 1/2^52 < 2"
  shows "\<exists>y. apply_adj (Fin x) a = Fin y \<and> \<bar>y - (e + adj_val a)\<bar> \<le> \<epsilon> + 1/2^52"
proof (cases a)
  case (Plus c)
  with ok have c: "0 < c" "c < 1" by auto
  from fround_err_1 [of c] c have c': "fround c = Fin (round_rat c)" "\<bar>round_rat c - c\<bar> \<le> 1/2^54"
    by simp_all
  define s where "s = x + round_rat c"
  from bnd Plus c have bnd': "\<bar>e\<bar> + \<bar>c\<bar> + \<epsilon> + 1/2^52 < 2" by simp
  have "\<bar>s\<bar> \<le> \<bar>e\<bar> + \<bar>c\<bar> + \<epsilon> + 1/2^54"
    unfolding s_def using xe c'(2) by (rule abs_add_near)
  with bnd' have "\<bar>s\<bar> < 2" by simp
  from fround_err_2 [OF this] have s': "fround s = Fin (round_rat s)" "\<bar>round_rat s - s\<bar> \<le> 1/2^53"
    by simp_all
  have "\<bar>s - (e + c)\<bar> \<le> \<epsilon> + 1/2^54"
    unfolding s_def using xe c'(2) by (rule abs_diff_add_near)
  from abs_diff_add_near [OF s'(2) this]
  have "\<bar>round_rat s - (e + c)\<bar> \<le> \<epsilon> + 1/2^52" by simp
  with Plus c'(1) s'(1) show ?thesis by (simp add: s_def)
next
  case (Minus c)
  with ok have c: "0 < c" "c < 1" by auto
  from fround_err_1 [of c] c have c': "fround c = Fin (round_rat c)" "\<bar>round_rat c - c\<bar> \<le> 1/2^54"
    by simp_all
  define s where "s = x + - round_rat c"
  from bnd Minus c have bnd': "\<bar>e\<bar> + \<bar>- c\<bar> + \<epsilon> + 1/2^52 < 2" by simp
  have c'': "\<bar>- round_rat c - - c\<bar> \<le> 1/2^54" using c'(2) by (simp add: abs_minus_commute)
  have "\<bar>s\<bar> \<le> \<bar>e\<bar> + \<bar>- c\<bar> + \<epsilon> + 1/2^54"
    unfolding s_def using xe c'' by (rule abs_add_near)
  with bnd' have "\<bar>s\<bar> < 2" by simp
  from fround_err_2 [OF this] have s': "fround s = Fin (round_rat s)" "\<bar>round_rat s - s\<bar> \<le> 1/2^53"
    by simp_all
  have "\<bar>s - (e + - c)\<bar> \<le> \<epsilon> + 1/2^54"
    unfolding s_def using xe c'' by (rule abs_diff_add_near)
  from abs_diff_add_near [OF s'(2) this]
  have "\<bar>round_rat s - (e + - c)\<bar> \<le> \<epsilon> + 1/2^52" by simp
  with Minus c'(1) s'(1) show ?thesis by (simp add: s_def js_sub_def)
next
  case Keep
  with xe show ?thesis by simp
qed

definition abs_sum :: "adj list \<Rightarrow> rat" where
  "abs_sum as = sum_list (map (\<lambda>a. \<bar>adj_val a\<bar>) as)"

lemma abs_sum_Cons [simp]: "abs_sum (a # as) = \<bar>adj_val a\<bar> + abs_sum as"
  by (simp add: abs_sum_def)

lemma abs_sum_nonneg: "0 \<le> abs_sum as"
  by (induction as) (simp_all add: abs_sum_def)

lemma chain_err:
  assumes "\<forall>a\<in>set as. adj_ok a" "\<bar>x - e\<bar> \<le> \<epsilon>"
    and "\<bar>e\<bar> + abs_sum as + \<epsilon> + of_nat (length as) / 2^52 < 2"
  shows "\<exists>y. foldl apply_adj (Fin x) as = Fin y \<and>
           \<bar>y - (e + sum_list (map adj_val as))\<bar> \<le> \<epsilon> + of_nat (length as) / 2^52"
  using assms
proof (induction as arbitrary: x e \<epsilon>)
  case Nil
  then show ?case by simp
next
  case (Cons a as)
  have "\<bar>e\<bar> + \<bar>adj_val a\<bar> + \<epsilon> + 1/2^52 < 2"
    using Cons.prems(3) abs_sum_nonneg [of as] by (simp add: field_simps)
  with Cons.prems(1,2) obtain y1 where y1: "apply_adj (Fin x) a = Fin y1"
    and e1: "\<bar>y1 - (e + adj_val a)\<bar> \<le> \<epsilon> + 1/2^52"
    using apply_adj_err by (metis list.set_intros(1))
  have "\<bar>e + adj_val a\<bar> \<le> \<bar>e\<bar> + \<bar>adj_val a\<bar>" by (rule abs_triangle_ineq)
  then have "\<bar>e + adj_val a\<bar> + abs_sum as + (\<epsilon> + 1/2^52) + of_nat (length as) / 2^52 < 2"
    using Cons.prems(3) by (simp add: field_simps)
  with Cons.prems(1) e1 obtain y where y: "foldl apply_adj (Fin y1) as = Fin y"
    and e2: "\<bar>y - (e + adj_val a + sum_list (map adj_val as))\<bar> \<le> \<epsilon> + 1/2^52 + of_nat (length as) / 2^52"
    using Cons.IH [of y1 "e + adj_val a" "\<epsilon> + 1/2^52"] by auto
  have "\<epsilon> + 1/2^52 + of_nat (length as) / 2^52 = \<epsilon> + of_nat (length (a # as)) / (2::rat)^52"
    by (simp add: field_simps)
  with y y1 e2 show ?case by (simp add: add.assoc add_divide_distrib)
qed

definition sex_adj :: "passenger \<Rightarrow> adj" where
  "sex_adj p = (if Sex p = Some ''female'' then Plus (35/100) else Minus (25/100))"

definition class_adj :: "passenger \<Rightarrow> adj" where
  "class_adj p = (if pclass_is p 1 then Plus (2/10) else if pclass_is p 2 then Plus (5/100)
                  else Minus (15/100))"

definition age_adj :: "passenger \<Rightarrow> adj" where
  "age_adj p = (let age = nullable_or (Age p) (Fin 30) in
                if js_less age (Fin 16) then Plus (1/10)
                else if js_less (Fin 60) age then Minus (1/10) else Keep)"

definition family_adj :: "passenger \<Rightarrow> adj" where
  "family_adj p = (let fs = familySize p in
                   if js_less (Fin 0) fs \<and> js_less fs (Fin 4) then Plus (5/100)
                   else if js_ge fs (Fin 4) then Minus (1/10) else Keep)"

definition fare_adj :: "passenger \<Rightarrow> adj" where
  "fare_adj p = (let fare = nullable_or (Fare p) (Fin 15) in
                 if js_less (Fin 50) fare then Plus (1/10)
                 else if js_less fare (Fin 10) then Minus (5/100) else Keep)"

definition adjustments :: "passenger \<Rightarrow> adj list" where
  "adjustments p = [sex_adj p, class_adj p, age_adj p, family_adj p, fare_adj p]"

definition clamp01 :: "jsnum \<Rightarrow> jsnum" where
  "clamp01 s = js_max (Fin 0) (js_min (Fin 1) s)"

definition raw_score :: "passenger \<Rightarrow> jsnum" where
  "raw_score p = foldl apply_adj (Fin (1/2)) (adjustments p)"

lemma predictSurvival_raw_score:
  "predictSurvival p = \<lparr>probability = clamp01 (raw_score p),
                         survived = js_less (Fin (1/2)) (clamp01 (raw_score p))\<rparr>"
  unfolding predictSurvival_def raw_score_def adjustments_def clamp01_def sex_adj_def class_adj_def
    age_adj_def family_adj_def fare_adj_def Let_def
  by simp


lemma clamp01_Fin: "clamp01 (Fin y) = Fin (max 0 (min 1 y))"
  by (auto simp: clamp01_def js_simps)

lemma adjustments_ok: "\<forall>a\<in>set (adjustments p). adj_ok a"
  by (simp add: adjustments_def sex_adj_def class_adj_def age_adj_def family_adj_def fare_adj_def Let_def)

lemma abs_sum_adjustments: "abs_sum (adjustments p) \<le> 85/100"
proof -
  have "\<bar>adj_val (sex_adj p)\<bar> \<le> 35/100" by (simp add: sex_adj_def)
  moreover have "\<bar>adj_val (class_adj p)\<bar> \<le> 2/10" by (simp add: class_adj_def)
  moreover have "\<bar>adj_val (age_adj p)\<bar> \<le> 1/10" by (simp add: age_adj_def Let_def)
  moreover have "\<bar>adj_val (family_adj p)\<bar> \<le> 1/10" by (simp add: family_adj_def Let_def)
  moreover have "\<bar>adj_val (fare_adj p)\<bar> \<le> 1/10" by (simp add: fare_adj_def Let_def)
  moreover have "abs_sum (adjustments p) = \<bar>adj_val (sex_adj p)\<bar> + \<bar>adj_val (class_adj p)\<bar>
      + \<bar>adj_val (age_adj p)\<bar> + \<bar>adj_val (family_adj p)\<bar> + \<bar>adj_val (fare_adj p)\<bar>"
    by (simp add: adjustments_def abs_sum_def add.assoc)
  ultimately show ?thesis by linarith
qed

text \<open>
  The exact-arithmetic reading of the scorer: the same five rules, with the code's own
  guards (\<open>||\<close> replaces a recorded 0 age or fare and a \<open>NaN\<close> count like an
  absent one), and the decimal constants added exactly, then clamped. Where the code's
  guards differ from spec section 4.2 (a recorded 0, section 7 (c) on malformed fields)
  this reference follows the code; those differences are stated separately
  (\<open>ScorerRules\<close>). The theorems relating \<open>predictSurvival\<close> to it are about the
  double arithmetic only.
\<close>

definition spec_score :: "passenger \<Rightarrow> rat" where
  "spec_score p = 1/2 + sum_list (map adj_val (adjustments p))"

definition spec_probability :: "passenger \<Rightarrow> rat" where
  "spec_probability p = max 0 (min 1 (spec_score p))"

lemma raw_score_near: "\<exists>y. raw_score p = Fin y \<and> \<bar>y - spec_score p\<bar> \<le> 5/2^52"
proof -
  have "\<bar>1/2::rat\<bar> + abs_sum (adjustments p) + 0 + of_nat (length (adjustments p)) / 2^52 < 2"
    using abs_sum_adjustments [of p] by (simp add: adjustments_def)
  from chain_err [OF adjustments_ok _ this, of "1/2"] show ?thesis
    by (simp add: raw_score_def spec_score_def adjustments_def)
qed


definition adjustment_space :: "adj list list" where
  "adjustment_space = [[a, b, c, d, e].
     a \<leftarrow> [Plus (35/100), Minus (25/100)],
     b \<leftarrow> [Plus (2/10), Plus (5/100), Minus (15/100)],
     c \<leftarrow> [Plus (1/10), Minus (1/10), Keep],
     d \<leftarrow> [Plus (5/100), Minus (1/10), Keep],
     e \<leftarrow> [Plus (1/10), Minus (5/100), Keep]]"

lemma adjustments_in_space: "adjustments p \<in> set adjustment_space"
  by (simp add: adjustments_def adjustment_space_def sex_adj_def class_adj_def age_adj_def
      family_adj_def fare_adj_def Let_def)

definition tie_lists :: "adj list list" where
  "tie_lists = [[Plus (35/100), Minus (15/100), Minus (1/10), Minus (1/10), Keep],
                [Minus (25/100), Plus (2/10), Plus (1/10), Keep, Minus (5/100)],
                [Minus (25/100), Plus (2/10), Minus (1/10), Plus (5/100), Plus (1/10)],
                [Minus (25/100), Plus (2/10), Keep, Plus (5/100), Keep],
                [Minus (25/100), Plus (5/100), Plus (1/10), Keep, Plus (1/10)]]"

lemma ties_of_space: "filter (\<lambda>as. sum_list (map adj_val as) = 0) adjustment_space = tie_lists"
  by code_simp

lemma ties_exact: "\<forall>as\<in>set tie_lists. foldl apply_adj (Fin (1/2)) as = Fin (1/2)"
  by code_simp


lemma spec_score_twentieths: "(spec_score p - 1/2) * 20 \<in> \<int>"
proof -
  have "adj_val (sex_adj p) * 20 \<in> \<int>" by (simp add: sex_adj_def)
  moreover have "adj_val (class_adj p) * 20 \<in> \<int>" by (simp add: class_adj_def)
  moreover have "adj_val (age_adj p) * 20 \<in> \<int>" by (simp add: age_adj_def Let_def)
  moreover have "adj_val (family_adj p) * 20 \<in> \<int>" by (simp add: family_adj_def Let_def)
  moreover have "adj_val (fare_adj p) * 20 \<in> \<int>" by (simp add: fare_adj_def Let_def)
  moreover have "(spec_score p - 1/2) * 20 = adj_val (sex_adj p) * 20 + adj_val (class_adj p) * 20
      + adj_val (age_adj p) * 20 + adj_val (family_adj p) * 20 + adj_val (fare_adj p) * 20"
    by (simp add: spec_score_def adjustments_def algebra_simps)
  ultimately show ?thesis by (metis Ints_add)
qed

lemma spec_score_off_half: "spec_score p \<noteq> 1/2 \<Longrightarrow> 1/20 \<le> \<bar>spec_score p - 1/2\<bar>"
proof -
  assume "spec_score p \<noteq> 1/2"
  then have "(spec_score p - 1/2) * 20 \<noteq> 0" by simp
  with spec_score_twentieths have "1 \<le> \<bar>(spec_score p - 1/2) * 20\<bar>" by (rule Ints_nonzero_abs_ge1)
  then have "1 \<le> \<bar>spec_score p - 1/2\<bar> * 20" by (simp only: abs_mult abs_numeral)
  then show ?thesis by (simp add: field_simps)
qed

lemma raw_score_tie: "spec_score p = 1/2 \<Longrightarrow> raw_score p = Fin (1/2)"
proof -
  assume "spec_score p = 1/2"
  then have "adjustments p \<in> set (filter (\<lambda>as. sum_list (map adj_val as) = 0) adjustment_space)"
    using adjustments_in_space by (simp add: spec_score_def)
  then have "adjustments p \<in> set tie_lists" by (simp only: ties_of_space)
  with ties_exact show ?thesis by (simp add: raw_score_def)
qed

subsection \<open>Range and refinement of the scorer\<close>

text \<open>
  C1. For every passenger, whatever its properties hold (absent, \<open>null\<close>, \<open>NaN\<close>,
  infinite or out-of-range values included), the probability \<open>predictSurvival\<close> returns
  is a finite Number between 0 and 1: never \<open>NaN\<close>, never an infinity.
\<close>

theorem predictSurvival_probability_bounds:
  "\<exists>r. probability (predictSurvival p) = Fin r \<and> 0 \<le> r \<and> r \<le> 1"
proof -
  obtain y where "raw_score p = Fin y" using raw_score_near by blast
  then show ?thesis by (simp add: predictSurvival_raw_score clamp01_Fin)
qed

lemma probability_near:
  "\<exists>r. probability (predictSurvival p) = Fin r \<and> \<bar>r - spec_probability p\<bar> \<le> 5/2^52"
proof -
  obtain y where y: "raw_score p = Fin y" "\<bar>y - spec_score p\<bar> \<le> 5/2^52"
    using raw_score_near by blast
  have "\<bar>max 0 (min 1 y) - spec_probability p\<bar> \<le> \<bar>y - spec_score p\<bar>"
    unfolding spec_probability_def by (rule clamp_lipschitz)
  with y show ?thesis by (simp add: predictSurvival_raw_score clamp01_Fin)
qed

text \<open>
  C3. The probability the scorer computes in double arithmetic differs from the
  probability of the same rules in exact arithmetic (\<open>spec_probability\<close>: the code's
  rules and guards with the decimal constants added exactly, then clamped) by at most
  \<open>5 * 2^-52\<close>.
\<close>

theorem predictSurvival_probability_error:
  "\<exists>r. probability (predictSurvival p) = Fin r \<and> \<bar>r - spec_probability p\<bar> \<le> 5/2^52"
  by (rule probability_near)

lemma survived_iff_spec_score:
  "survived (predictSurvival p) \<longleftrightarrow> 1/2 < spec_score p"
proof -
  obtain y where y: "raw_score p = Fin y" "\<bar>y - spec_score p\<bar> \<le> 5/2^52"
    using raw_score_near by blast
  have lhs: "survived (predictSurvival p) \<longleftrightarrow> 1/2 < y"
    using y(1) by (simp only: predictSurvival_raw_score clamp01_Fin prediction.simps js_less.simps
        half_less_clamp_iff)
  show ?thesis
  proof (cases "spec_score p = 1/2")
    case True
    with y(1) raw_score_tie have "y = 1/2" by simp
    with True show ?thesis using lhs by simp
  next
    case False
    then have "1/20 \<le> \<bar>spec_score p - 1/2\<bar>" by (rule spec_score_off_half)
    with y(2) have "1/2 < y \<longleftrightarrow> 1/2 < spec_score p" by (simp add: abs_if split: if_splits)
    then show ?thesis using lhs by blast
  qed
qed

text \<open>
  C2. Rounding never changes the verdict: \<open>survived\<close> is true exactly when the
  exact-arithmetic probability of the same rules exceeds 1/2. The five attribute combinations whose
  exact score is exactly 1/2 also give exactly 0.5 in double arithmetic, hence no survival.
\<close>

theorem predictSurvival_verdict_spec:
  "survived (predictSurvival p) \<longleftrightarrow> 1/2 < spec_probability p"
  by (simp only: survived_iff_spec_score spec_probability_def half_less_clamp_iff)

end
