(* ===== verification/Summarizer.thy ===== *)
theory Summarizer
  imports Scorer
begin

text \<open>
  The dataset summary of TitanicPredictor.tsx, \<open>calculateModelStats\<close> (lines 122--145):
  the record count, the number of records labelled survived (\<open>p.Survived === 1\<close>), the
  death count as their difference, the \<open>forEach\<close> loop counting records whose scorer
  verdict agrees with the label (\<open>count_correct\<close>, the counter \<open>correctPredictions++\<close>
  threaded through the loop) and the accuracy percentage
  \<open>(correctPredictions / totalPassengers) * 100\<close>, all in Number arithmetic. The
  function's \<open>setModelStats\<close> call is modelled by returning the record; the component
  theory stores it.
\<close>

definition label_is :: "passenger \<Rightarrow> rat \<Rightarrow> bool" where
  "label_is p k = (case Survived p of Some n \<Rightarrow> js_eq n (Fin k) | None \<Rightarrow> False)"

definition prediction_correct :: "passenger \<Rightarrow> bool" where
  "prediction_correct passenger = (let predicted = predictSurvival passenger in
     (survived predicted \<and> label_is passenger 1) \<or> (\<not> survived predicted \<and> label_is passenger 0))"

fun count_correct :: "jsnum \<Rightarrow> passenger list \<Rightarrow> jsnum" where
  "count_correct correctPredictions [] = correctPredictions"
| "count_correct correctPredictions (p # ps) =
     count_correct (if prediction_correct p then js_add correctPredictions (Fin 1)
                    else correctPredictions) ps"

definition calculateModelStats :: "passenger list \<Rightarrow> model_stats" where
  "calculateModelStats passengers = (
     let totalPassengers = fround (of_nat (length passengers));
         survivedCount = fround (of_nat (length (filter (\<lambda>p. label_is p 1) passengers)));
         deathCount = js_sub totalPassengers survivedCount;
         correctPredictions = count_correct (Fin 0) passengers;
         accuracy = js_mul (js_div correctPredictions totalPassengers) (Fin 100)
     in \<lparr>accuracy = accuracy, totalPassengers = totalPassengers,
         survivedCount = survivedCount, deathCount = deathCount\<rparr>)"

text \<open>
  The accuracy contract of spec section 4.3, with the exact-arithmetic reading of the
  scorer's rules: its verdict matches the label.
\<close>

definition spec_agrees :: "passenger \<Rightarrow> bool" where
  "spec_agrees p = (let v = (1/2 < spec_probability p) in
     (v \<and> label_is p 1) \<or> (\<not> v \<and> label_is p 0))"

subsection \<open>Counting\<close>

lemma count_correct_exact:
  "n + length ps < 2 ^ 53 \<Longrightarrow>
   count_correct (Fin (of_nat n)) ps = Fin (of_nat (n + length (filter prediction_correct ps)))"
proof (induction ps arbitrary: n)
  case (Cons p ps)
  have e: "of_nat n + (1::rat) = of_nat (Suc n)" by simp
  have "js_add (Fin (of_nat n)) (Fin 1) = Fin (of_nat (Suc n))"
    unfolding js_add.simps e using Cons.prems by (intro fround_nat) simp
  then show ?case using Cons.IH [of "Suc n"] Cons.IH [of n] Cons.prems by simp
qed simp

lemma count_correct_0:
  "length ps < 2 ^ 53 \<Longrightarrow>
   count_correct (Fin 0) ps = Fin (of_nat (length (filter prediction_correct ps)))"
  using count_correct_exact [of 0 ps] by simp

lemma js_sub_nat:
  "m \<le> n \<Longrightarrow> n < 2 ^ 53 \<Longrightarrow>
   js_sub (Fin (of_nat n)) (Fin (of_nat m)) = Fin (of_nat (n - m))"
  using fround_nat [of "n - m"] by (simp add: js_sub_def of_nat_diff)

lemma js_add_nat:
  "m + k < 2 ^ 53 \<Longrightarrow> js_add (Fin (of_nat m)) (Fin (of_nat k)) = Fin (of_nat (m + k))"
  using fround_nat [of "m + k"] by simp

lemma ratio_percent_bounds:
  assumes "0 \<le> q" "q \<le> 1"
  shows "\<exists>a. js_mul (fround q) (Fin 100) = Fin a \<and> 0 \<le> a \<and> a \<le> 100 \<and>
             \<bar>a - 100 * q\<bar> \<le> 1/2^45"
proof -
  have f1: "fround 1 = Fin 1" using fround_nat [of 1] by simp
  from fround_mono_nonneg [OF assms f1]
  have q: "fround q = Fin (round_rat q)" "0 \<le> round_rat q" "round_rat q \<le> 1" by auto
  have eq: "\<bar>round_rat q - q\<bar> \<le> 1/2^53" using fround_err_2 [of q] assms by simp
  let ?x = "round_rat q * 100"
  have f100: "fround 100 = Fin 100" using fround_nat [of 100] by simp
  from fround_mono_nonneg [of ?x 100 100] q(2,3) f100
  have x: "fround ?x = Fin (round_rat ?x)" "0 \<le> round_rat ?x" "round_rat ?x \<le> 100" by auto
  have "\<bar>?x\<bar> < power_int 2 7" using q(2,3) by simp
  then have ex: "\<bar>round_rat ?x - ?x\<bar> \<le> power_int 2 (7 - 54)" by (rule round_rat_err) simp
  have "power_int (2::rat) (7 - 54) = 1/2^47" using pow2_neg_numeral [of "num.Bit1 (num.Bit1 (num.Bit1 (num.Bit1 (num.Bit0 num.One))))"] by simp
  with ex have ex': "\<bar>round_rat ?x - ?x\<bar> \<le> 1/2^47" by simp
  have "\<bar>?x - 100 * q\<bar> = 100 * \<bar>round_rat q - q\<bar>"
  proof -
    have "?x - 100 * q = 100 * (round_rat q - q)" by (simp add: algebra_simps)
    then show ?thesis by (metis abs_mult abs_numeral)
  qed
  with eq have e2: "\<bar>?x - 100 * q\<bar> \<le> 100/2^53" by simp
  have c: "(1::rat)/2^47 + 100/2^53 \<le> 1/2^45" by simp
  have "\<bar>round_rat ?x - 100 * q\<bar> \<le> \<bar>round_rat ?x - ?x\<bar> + \<bar>?x - 100 * q\<bar>"
    using abs_triangle_ineq [of "round_rat ?x - ?x" "?x - 100 * q"] by simp
  with ex' e2 c have "\<bar>round_rat ?x - 100 * q\<bar> \<le> 1/2^45" by linarith
  then show ?thesis using q(1) x by simp
qed

lemma prediction_correct_spec: "prediction_correct p = spec_agrees p"
  unfolding prediction_correct_def spec_agrees_def Let_def spec_probability_def
  by (simp only: survived_iff_spec_score half_less_clamp_iff)

lemma calculateModelStats_total:
  "length ps < 2 ^ 53 \<Longrightarrow> totalPassengers (calculateModelStats ps) = Fin (of_nat (length ps))"
  by (simp add: calculateModelStats_def Let_def fround_nat)

lemma accuracy_near:
  assumes "0 < length ps" "length ps < 2 ^ 53"
  shows "\<exists>a. accuracy (calculateModelStats ps) = Fin a \<and> 0 \<le> a \<and> a \<le> 100 \<and>
           \<bar>a - 100 * of_nat (length (filter prediction_correct ps)) / of_nat (length ps)\<bar> \<le> 1/2^45"
proof -
  let ?c = "length (filter prediction_correct ps)" and ?n = "length ps"
  have cn: "?c \<le> ?n" by (rule length_filter_le)
  let ?q = "of_nat ?c / of_nat ?n :: rat"
  have q: "0 \<le> ?q" "?q \<le> 1" using cn assms(1) by (simp_all add: divide_le_eq_1)
  have "accuracy (calculateModelStats ps) = js_mul (fround ?q) (Fin 100)"
    using assms count_correct_0 [of ps] by (simp add: calculateModelStats_def Let_def fround_nat)
  then show ?thesis using ratio_percent_bounds [OF q] by (simp add: mult.assoc)
qed

text \<open>
  C10. For a dataset of fewer than \<open>2^53\<close> records the counts are exact: the total is the
  number of records, the survived count the number of records labelled 1, and survived plus
  death count gives back the total (spec section 7).
\<close>

theorem calculateModelStats_counts:
  assumes "length ps < 2 ^ 53"
  shows "totalPassengers (calculateModelStats ps) = Fin (of_nat (length ps)) \<and>
         survivedCount (calculateModelStats ps) = Fin (of_nat (length (filter (\<lambda>p. label_is p 1) ps))) \<and>
         js_add (survivedCount (calculateModelStats ps)) (deathCount (calculateModelStats ps)) =
           totalPassengers (calculateModelStats ps)"
proof -
  let ?s = "length (filter (\<lambda>p. label_is p 1) ps)" and ?n = "length ps"
  have sn: "?s \<le> ?n" by (rule length_filter_le)
  with assms have "?s < 2 ^ 53" by linarith
  with assms sn show ?thesis
    by (simp add: calculateModelStats_def Let_def fround_nat js_sub_nat js_add_nat)
qed

text \<open>
  C11. For a non-empty dataset (of fewer than \<open>2^53\<close> records) the accuracy is a finite
  Number between 0 and 100 (spec section 7).
\<close>

theorem calculateModelStats_accuracy_bounds:
  "0 < length ps \<Longrightarrow> length ps < 2 ^ 53 \<Longrightarrow>
   \<exists>a. accuracy (calculateModelStats ps) = Fin a \<and> 0 \<le> a \<and> a \<le> 100"
  using accuracy_near by blast

text \<open>
  C12. The accuracy implements the contract of spec section 4.3: it is, up to
  \<open>2^-45\<close>, one hundred times the fraction of records on which the verdict of the
  scorer's rules in exact arithmetic matches the label (1 for a survival verdict, 0
  otherwise).
\<close>

theorem calculateModelStats_accuracy_spec:
  "0 < length ps \<Longrightarrow> length ps < 2 ^ 53 \<Longrightarrow>
   \<exists>a. accuracy (calculateModelStats ps) = Fin a \<and>
        \<bar>a - 100 * of_nat (length (filter spec_agrees ps)) / of_nat (length ps)\<bar> \<le> 1/2^45"
proof -
  have "filter prediction_correct ps = filter spec_agrees ps"
    by (rule filter_cong) (simp_all add: prediction_correct_spec)
  then show "0 < length ps \<Longrightarrow> length ps < 2 ^ 53 \<Longrightarrow> ?thesis"
    using accuracy_near [of ps] by auto
qed

text \<open>An empty dataset: \<open>0 / 0 * 100\<close> is \<open>NaN\<close>.\<close>

lemma calculateModelStats_Nil:
  "calculateModelStats [] =
   \<lparr>accuracy = NaN, totalPassengers = Fin 0, survivedCount = Fin 0, deathCount = Fin 0\<rparr>"
  by (simp add: calculateModelStats_def Let_def js_simps)

subsection \<open>Witnesses\<close>

theorem calculateModelStats_counts_witness:
  "totalPassengers (calculateModelStats [empty_passenger\<lparr>Survived := Some (Fin 1)\<rparr>, empty_passenger]) = Fin 2 \<and>
   survivedCount (calculateModelStats [empty_passenger\<lparr>Survived := Some (Fin 1)\<rparr>, empty_passenger]) = Fin 1 \<and>
   js_add (survivedCount (calculateModelStats [empty_passenger\<lparr>Survived := Some (Fin 1)\<rparr>, empty_passenger]))
          (deathCount (calculateModelStats [empty_passenger\<lparr>Survived := Some (Fin 1)\<rparr>, empty_passenger])) = Fin 2"
proof -
  have h: "length [empty_passenger\<lparr>Survived := Some (Fin 1)\<rparr>, empty_passenger] < 2 ^ 53" by simp
  note C = calculateModelStats_counts [OF h]
  have c1: "totalPassengers (calculateModelStats [empty_passenger\<lparr>Survived := Some (Fin 1)\<rparr>, empty_passenger]) = Fin 2"
    using conjunct1 [OF C] by simp
  have c2: "survivedCount (calculateModelStats [empty_passenger\<lparr>Survived := Some (Fin 1)\<rparr>, empty_passenger]) = Fin 1"
    using conjunct1 [OF conjunct2 [OF C]] by (simp add: label_is_def empty_passenger_def)
  have c3: "js_add (survivedCount (calculateModelStats [empty_passenger\<lparr>Survived := Some (Fin 1)\<rparr>, empty_passenger]))
          (deathCount (calculateModelStats [empty_passenger\<lparr>Survived := Some (Fin 1)\<rparr>, empty_passenger])) =
          totalPassengers (calculateModelStats [empty_passenger\<lparr>Survived := Some (Fin 1)\<rparr>, empty_passenger])"
    by (rule conjunct2 [OF conjunct2 [OF C]])
  show ?thesis using c1 c2 by (subst c3) simp
qed

theorem calculateModelStats_accuracy_bounds_witness:
  "\<exists>a. accuracy (calculateModelStats [empty_passenger\<lparr>Survived := Some (Fin 1)\<rparr>]) = Fin a \<and> 0 \<le> a \<and> a \<le> 100"
  using calculateModelStats_accuracy_bounds [of "[empty_passenger\<lparr>Survived := Some (Fin 1)\<rparr>]"] by simp

theorem calculateModelStats_accuracy_spec_witness:
  "\<exists>a. accuracy (calculateModelStats [empty_passenger\<lparr>Survived := Some (Fin 1)\<rparr>]) = Fin a \<and>
        \<bar>a - 100 * of_nat (length (filter spec_agrees [empty_passenger\<lparr>Survived := Some (Fin 1)\<rparr>]))\<bar> \<le> 1/2^45"
  using calculateModelStats_accuracy_spec [of "[empty_passenger\<lparr>Survived := Some (Fin 1)\<rparr>]"] by simp

end
