(* ===== verification/JsString.thy ===== *)
theory JsString
  imports JsNumber
begin

text \<open>
  The JavaScript string operations the parser and the form handlers call, after ECMA-262.
  A JavaScript string is a sequence of UTF-16 code units; the model's \<open>string\<close> holds
  the code units below 256 (Latin-1), which covers every character the program tests for.
  \<^item> \<open>js_ws\<close>: the WhiteSpace and LineTerminator code units below 256 (TAB, LF, VT, FF,
    CR, SPACE, NO-BREAK SPACE), which \<open>trim\<close>, \<open>parseInt\<close> and \<open>parseFloat\<close> skip;
  \<^item> \<open>js_trim\<close>: \<open>String.prototype.trim\<close>;
  \<^item> \<open>js_split c\<close>: \<open>String.prototype.split\<close> with a one-character separator (the
    empty string splits to \<open>['']\<close>);
  \<^item> \<open>strip_quotes\<close>: \<open>replace(/"/g, '')\<close>;
  \<^item> \<open>parseInt\<close> (radix undefined: decimal, or hexadecimal after \<open>0x\<close>) and
    \<open>parseFloat\<close> (the longest prefix that is a StrDecimalLiteral): the exact value of the
    digits is rounded to a Number once, with \<open>fround\<close>.
\<close>

definition js_ws :: "char \<Rightarrow> bool" where
  "js_ws c \<longleftrightarrow> (of_char c :: nat) \<in> {9, 10, 11, 12, 13, 32, 160}"

definition js_trim :: "string \<Rightarrow> string" where
  "js_trim s = rev (dropWhile js_ws (rev (dropWhile js_ws s)))"

fun js_split :: "char \<Rightarrow> string \<Rightarrow> string list" where
  "js_split c [] = [[]]"
| "js_split c (x # xs) =
     (case js_split c xs of
        [] \<Rightarrow> [[x]]
      | y # ys \<Rightarrow> (if x = c then [] # y # ys else (x # y) # ys))"

definition strip_quotes :: "string \<Rightarrow> string" where
  "strip_quotes s = filter (\<lambda>c. c \<noteq> quote_char) s"

subsection \<open>Digits\<close>

definition digit_value :: "char \<Rightarrow> nat option" where
  "digit_value c = (let n = (of_char c :: nat) in
     if 48 \<le> n \<and> n \<le> 57 then Some (n - 48)
     else if 97 \<le> n \<and> n \<le> 122 then Some (n - 87)
     else if 65 \<le> n \<and> n \<le> 90 then Some (n - 55)
     else None)"

definition is_radix_digit :: "nat \<Rightarrow> char \<Rightarrow> bool" where
  "is_radix_digit r c = (case digit_value c of Some d \<Rightarrow> d < r | None \<Rightarrow> False)"

definition digits_val :: "nat \<Rightarrow> string \<Rightarrow> nat" where
  "digits_val r ds = foldl (\<lambda>acc c. acc * r + (case digit_value c of Some d \<Rightarrow> d | None \<Rightarrow> 0)) 0 ds"

abbreviation is_dec :: "char \<Rightarrow> bool" where
  "is_dec \<equiv> is_radix_digit 10"

subsection \<open>parseInt and parseFloat\<close>

text \<open>
  \<open>parseInt(string)\<close> (ECMA-262 19.2.5 with radix undefined): skip leading white space,
  take an optional sign, strip a \<open>0x\<close>/\<open>0X\<close> prefix (radix 16, else 10), take the
  longest run of radix digits; none is \<open>NaN\<close>.
\<close>

definition parseInt :: "string \<Rightarrow> jsnum" where
  "parseInt s = (
     let S = dropWhile js_ws s;
         neg = (S \<noteq> [] \<and> hd S = CHR ''-'');
         S = (if S \<noteq> [] \<and> (hd S = CHR ''-'' \<or> hd S = CHR ''+'') then tl S else S);
         hex = (take 2 S = ''0x'' \<or> take 2 S = ''0X'');
         R = (if hex then 16 else 10);
         S = (if hex then drop 2 S else S);
         Z = takeWhile (is_radix_digit R) S
     in if Z = [] then NaN
        else fround ((if neg then -1 else 1) * of_nat (digits_val R Z)))"

text \<open>
  The exponent part of a StrDecimalLiteral: \<open>e\<close> or \<open>E\<close>, an optional sign and at least
  one digit; anything shorter is not part of the literal and contributes exponent 0.
\<close>

definition exponent_part :: "string \<Rightarrow> int" where
  "exponent_part r = (
     if r \<noteq> [] \<and> (hd r = CHR ''e'' \<or> hd r = CHR ''E'') then
       let t = tl r;
           eneg = (t \<noteq> [] \<and> hd t = CHR ''-'');
           t = (if t \<noteq> [] \<and> (hd t = CHR ''-'' \<or> hd t = CHR ''+'') then tl t else t);
           ds = takeWhile is_dec t
       in if ds = [] then 0 else (if eneg then - int (digits_val 10 ds) else int (digits_val 10 ds))
     else 0)"

text \<open>
  \<open>parseFloat(string)\<close> (ECMA-262 19.2.4): skip leading white space; the longest prefix
  that is \<open>[+|-] (Infinity | digits [. [digits]] [exponent] | . digits [exponent])\<close>; none
  is \<open>NaN\<close>.
\<close>

definition parseFloat :: "string \<Rightarrow> jsnum" where
  "parseFloat s = (
     let T = dropWhile js_ws s;
         neg = (T \<noteq> [] \<and> hd T = CHR ''-'');
         U = (if T \<noteq> [] \<and> (hd T = CHR ''-'' \<or> hd T = CHR ''+'') then tl T else T)
     in if take 8 U = ''Infinity'' then (if neg then NegInf else PosInf)
        else
          let ip = takeWhile is_dec U;
              r1 = dropWhile is_dec U;
              dot = (r1 \<noteq> [] \<and> hd r1 = CHR ''.'');
              fp = (if dot then takeWhile is_dec (tl r1) else []);
              r2 = (if dot then dropWhile is_dec (tl r1) else r1);
              e = exponent_part r2
          in if ip = [] \<and> fp = [] then NaN
             else fround ((if neg then -1 else 1) * of_nat (digits_val 10 (ip @ fp))
                          * power_int 10 (e - int (length fp))))"

subsection \<open>Splitting and joining\<close>

lemma js_split_not_Nil [simp]: "js_split c s \<noteq> []"
  by (induction s) (auto split: list.splits)

lemma js_split_Cons:
  "js_split c (x # xs) = (if x = c then [] # js_split c xs
                          else (x # hd (js_split c xs)) # tl (js_split c xs))"
  by (cases "js_split c xs") auto

lemma js_split_no_sep: "w \<in> set (js_split c s) \<Longrightarrow> c \<notin> set w"
proof (induction s arbitrary: w)
  case Nil
  then show ?case by simp
next
  case (Cons x xs)
  from js_split_not_Nil [of c xs] obtain y ys where yys: "js_split c xs = y # ys"
    by (cases "js_split c xs") auto
  show ?case
  proof (cases "x = c")
    case True
    with Cons.prems yys have "w = [] \<or> w \<in> set (y # ys)" by auto
    with Cons.IH yys show ?thesis by auto
  next
    case False
    with Cons.prems yys have "w = x # y \<or> w \<in> set ys" by auto
    with Cons.IH yys False show ?thesis by auto
  qed
qed

lemma join_with_js_split: "join_with c (js_split c s) = s"
proof (induction s)
  case Nil
  then show ?case by simp
next
  case (Cons x xs)
  obtain y ys where yys: "js_split c xs = y # ys"
    using js_split_not_Nil [of c xs] by (cases "js_split c xs") auto
  with Cons.IH have "join_with c (y # ys) = xs" by simp
  then show ?case using yys by (cases ys) (auto simp: js_split_Cons)
qed

lemma js_split_join_with:
  assumes "ws \<noteq> []" "\<forall>w\<in>set ws. c \<notin> set w"
  shows "js_split c (join_with c ws) = ws"
  using assms
proof (induction ws)
  case Nil
  then show ?case by simp
next
  case (Cons w ws)
  have no_sep: "js_split c (w @ rest) = (w @ hd (js_split c rest)) # tl (js_split c rest)"
    if "c \<notin> set w" for rest
    using that by (induction w) (auto simp: js_split_Cons)
  show ?case
  proof (cases ws)
    case Nil
    with Cons.prems no_sep [of "[]"] show ?thesis by simp
  next
    case (Cons w' ws')
    then have "join_with c (w # ws) = w @ c # join_with c ws" by simp
    moreover have "js_split c (c # join_with c ws) = [] # ws"
      using Cons.IH Cons.prems \<open>ws = w' # ws'\<close> by (simp add: js_split_Cons)
    ultimately show ?thesis using no_sep [of "c # join_with c ws"] Cons.prems by simp
  qed
qed


lemma js_split_single: "c \<notin> set s \<Longrightarrow> js_split c s = [s]"
  by (induction s) (auto simp: js_split_Cons simp del: js_split.simps(2))

lemma js_split_sep_append: "c \<notin> set u \<Longrightarrow> js_split c (u @ c # w) = u # js_split c w"
  by (induction u) (auto simp: js_split_Cons simp del: js_split.simps(2))

lemma join_with_snoc_char:
  "ws \<noteq> [] \<Longrightarrow> join_with c ws @ [x] = join_with c (butlast ws @ [last ws @ [x]])"
  by (induction c ws rule: join_with.induct) auto

lemma notin_join_with: "x \<noteq> c \<Longrightarrow> \<forall>w\<in>set ws. x \<notin> set w \<Longrightarrow> x \<notin> set (join_with c ws)"
  by (induction c ws rule: join_with.induct) auto

lemma js_trim_prefix: "\<exists>W. js_trim t @ W = dropWhile js_ws t"
proof -
  let ?X = "dropWhile js_ws t"
  have "rev (dropWhile js_ws (rev ?X)) @ rev (takeWhile js_ws (rev ?X)) = ?X"
    using takeWhile_dropWhile_id [of js_ws "rev ?X"] by (metis rev_append rev_rev_ident)
  then show ?thesis by (auto simp: js_trim_def)
qed

end
