(* ===== verification/CsvParser.thy ===== *)
theory CsvParser
  imports JsString Interfaces "HOL-Library.While_Combinator"
begin

text \<open>
  The CSV reader of TitanicPredictor.tsx.
  \<^item> \<open>parseCSVLine\<close> (lines 102--120) is the source's \<open>for\<close> loop kept as a loop:
    \<open>while_option\<close> over the state \<open>(i, result, current, inQuotes)\<close> with the guard
    \<open>parseCSVLine_cond\<close> (\<open>i < line.length\<close>) and the body \<open>parseCSVLine_body\<close>; a
    quote toggles the flag and is dropped, a comma outside quotes ends the field, any other
    character is appended, and the last field is flushed after the loop whatever the flag.
    \<open>parseCSVLine_while_from\<close> shows the loop stops with \<open>i = line.length\<close> and equals
    the recursion \<open>parseCSVLine_loop\<close>; \<open>csv_fields\<close> is a second, right-to-left
    reading of the same line, and \<open>parseCSVLine_fields\<close> shows the loop computes it.
  \<^item> \<open>assign_field\<close> (lines 81--95): the \<open>switch\<close> on the header name with the
    coercions \<open>int_field\<close> (\<open>parseInt(value) || 0\<close>) and \<open>float_field\<close>
    (\<open>value ? parseFloat(value) : null\<close>); \<open>set_prop\<close> is the default branch's
    \<open>passenger[header] = value\<close>. \<open>field_value\<close> is
    \<open>values[index]?.replace(/"/g, '') || ''\<close> (line 80), \<open>assign_columns\<close> the
    \<open>headers.forEach\<close> loop, \<open>parse_row\<close> one data line.
  \<^item> \<open>parseCSV\<close> (lines 71--100): trim, split at line feeds, split the header line at
    commas (without quote handling), and map every later line to a passenger.
  \<open>passenger_of_props\<close> reads a passenger off a map from property names to raw
  strings; a row is shown below to be that reading of the header-to-value map
  the \<open>forEach\<close> builds, in which a later column overrides an earlier one of the same name.
  \<open>passenger_wf\<close> is the typing of a parsed record: its integer columns are integral
  Numbers or absent.
\<close>

type_synonym csv_state = "nat \<times> string list \<times> string \<times> bool"

definition parseCSVLine_body :: "string \<Rightarrow> csv_state \<Rightarrow> csv_state" where
  "parseCSVLine_body line = (\<lambda>(i, result, current, inQuotes).
     (let char = line ! i in
      if char = quote_char then (Suc i, result, current, \<not> inQuotes)
      else if char = comma_char \<and> \<not> inQuotes then (Suc i, result @ [current], [], inQuotes)
      else (Suc i, result, current @ [char], inQuotes)))"

definition parseCSVLine_cond :: "string \<Rightarrow> csv_state \<Rightarrow> bool" where
  "parseCSVLine_cond line = (\<lambda>(i, _). i < length line)"

definition parseCSVLine_for :: "string \<Rightarrow> csv_state option" where
  "parseCSVLine_for line = while_option (parseCSVLine_cond line) (parseCSVLine_body line) (0, [], [], False)"

definition parseCSVLine :: "string \<Rightarrow> string list" where
  "parseCSVLine line =
     (let (_, result, current, _) = while (parseCSVLine_cond line) (parseCSVLine_body line) (0, [], [], False)
      in result @ [current])"

text \<open>Reference: the loop read as a recursion over the characters left.\<close>

fun parseCSVLine_loop :: "string \<Rightarrow> string list \<Rightarrow> string \<Rightarrow> bool \<Rightarrow> string list" where
  "parseCSVLine_loop [] result current inQuotes = result @ [current]"
| "parseCSVLine_loop (c # cs) result current inQuotes =
     (if c = quote_char then parseCSVLine_loop cs result current (\<not> inQuotes)
      else if c = comma_char \<and> \<not> inQuotes then parseCSVLine_loop cs (result @ [current]) [] inQuotes
      else parseCSVLine_loop cs result (current @ [c]) inQuotes)"

lemma parseCSVLine_while_from:
  "i \<le> length line \<Longrightarrow>
   \<exists>r' c' q'. while_option (parseCSVLine_cond line) (parseCSVLine_body line) (i, r, c, q) =
                Some (length line, r', c', q') \<and>
              r' @ [c'] = parseCSVLine_loop (drop i line) r c q"
proof (induction "length line - i" arbitrary: i r c q)
  case 0
  then have "i = length line" by simp
  then show ?case by (subst while_option_unfold) (simp add: parseCSVLine_cond_def)
next
  case (Suc n)
  then have i: "i < length line" by simp
  have d: "drop i line = line ! i # drop (Suc i) line" using i by (rule Cons_nth_drop_Suc [symmetric])
  have u: "while_option (parseCSVLine_cond line) (parseCSVLine_body line) (i, r, c, q) =
           while_option (parseCSVLine_cond line) (parseCSVLine_body line) (parseCSVLine_body line (i, r, c, q))"
    using i by (simp add: while_option_unfold [of _ _ "(i, r, c, q)"] parseCSVLine_cond_def)
  have n: "n = length line - Suc i" using Suc.hyps(2) by simp
  show ?case
    using Suc.hyps(1) [OF n] i unfolding u d
    by (simp add: parseCSVLine_body_def Let_def)
qed

lemma parseCSVLine_eq_loop: "parseCSVLine line = parseCSVLine_loop line [] [] False"
proof -
  obtain r c q where w: "while_option (parseCSVLine_cond line) (parseCSVLine_body line) (0, [], [], False) =
      Some (length line, r, c, q)" and e: "r @ [c] = parseCSVLine_loop line [] [] False"
    using parseCSVLine_while_from [of 0 line "[]" "[]" False] by auto
  show ?thesis using w e by (simp add: parseCSVLine_def while_def)
qed

text \<open>Second reference: the fields of the rest of a line, read right to left.\<close>

fun csv_fields :: "bool \<Rightarrow> string \<Rightarrow> string list" where
  "csv_fields q [] = [[]]"
| "csv_fields q (c # cs) =
     (if c = quote_char then csv_fields (\<not> q) cs
      else if c = comma_char \<and> \<not> q then [] # csv_fields q cs
      else (c # hd (csv_fields q cs)) # tl (csv_fields q cs))"

lemma csv_fields_not_Nil [simp]: "csv_fields q s \<noteq> []"
  by (induction q s rule: csv_fields.induct) auto

lemma parseCSVLine_loop_fields:
  "parseCSVLine_loop cs result current q =
     result @ (current @ hd (csv_fields q cs)) # tl (csv_fields q cs)"
  by (induction cs arbitrary: result current q) auto

lemma parseCSVLine_fields: "parseCSVLine line = csv_fields False line"
  using parseCSVLine_loop_fields [of line "[]" "[]" False] by (simp add: parseCSVLine_eq_loop)

lemma csv_fields_no_quote: "f \<in> set (csv_fields q s) \<Longrightarrow> quote_char \<notin> set f"
proof (induction q s arbitrary: f rule: csv_fields.induct)
  case (1 q)
  then show ?case by simp
next
  case (2 q c cs)
  show ?case
  proof (cases "c = quote_char")
    case True
    with 2 show ?thesis by simp
  next
    case False
    note nq = False
    show ?thesis
    proof (cases "c = comma_char \<and> \<not> q")
      case True
      with nq "2.prems" "2.IH"(2) show ?thesis by auto
    next
      case False
      with nq "2.prems" have "f = c # hd (csv_fields q cs) \<or> f \<in> set (tl (csv_fields q cs))" by auto
      moreover have "hd (csv_fields q cs) \<in> set (csv_fields q cs)" by simp
      moreover have "set (tl (csv_fields q cs)) \<subseteq> set (csv_fields q cs)" by (cases "csv_fields q cs") auto
      ultimately show ?thesis using nq False "2.IH"(3) by auto
    qed
  qed
qed

lemma csv_fields_split: "quote_char \<notin> set s \<Longrightarrow> csv_fields False s = js_split comma_char s"
  by (induction s) (auto simp: js_split_Cons simp del: js_split.simps(2))

text \<open>
  C17. On a line without quote characters the quote-aware loop splits exactly as
  \<open>line.split(',')\<close>, the reading \<open>parseCSV\<close> applies to the header line (line 73):
  headers and rows agree on their columns as long as no header is quoted.
\<close>

theorem parseCSVLine_split:
  "quote_char \<notin> set line \<Longrightarrow> parseCSVLine line = js_split comma_char line"
  by (simp add: parseCSVLine_fields csv_fields_split)

text \<open>
  C5. No field \<open>parseCSVLine\<close> returns contains a quote character, so the
  \<open>replace(/"/g, '')\<close> the caller applies (line 80) never changes a value.
\<close>

theorem parseCSVLine_no_quotes: "\<forall>f\<in>set (parseCSVLine line). quote_char \<notin> set f"
  by (simp add: parseCSVLine_fields csv_fields_no_quote)

definition quote_field :: "string \<Rightarrow> string" where
  "quote_field f = quote_char # f @ [quote_char]"

lemma csv_fields_quoted:
  assumes "quote_char \<notin> set f"
  shows "csv_fields False (quote_field f @ rest) = (f @ hd (csv_fields False rest)) # tl (csv_fields False rest)"
proof -
  have inner: "csv_fields True (f @ quote_char # rest) =
                 (f @ hd (csv_fields False rest)) # tl (csv_fields False rest)"
    using assms by (induction f) auto
  then show ?thesis by (simp add: quote_field_def)
qed

lemma csv_fields_plain:
  assumes "quote_char \<notin> set f" "comma_char \<notin> set f"
  shows "csv_fields False (f @ rest) = (f @ hd (csv_fields False rest)) # tl (csv_fields False rest)"
  using assms by (induction f) auto

text \<open>
  C4. Round trip of quoted fields: fields without quote characters, each wrapped in quotes
  and joined with commas, are split back into exactly those fields, embedded commas kept.
\<close>

theorem parseCSVLine_quoted_roundtrip:
  assumes "fs \<noteq> []" "\<forall>f\<in>set fs. quote_char \<notin> set f"
  shows "parseCSVLine (join_with comma_char (map quote_field fs)) = fs"
  unfolding parseCSVLine_fields using assms
proof (induction fs)
  case Nil
  then show ?case by simp
next
  case (Cons f fs)
  show ?case
  proof (cases "fs = []")
    case True
    with Cons.prems csv_fields_quoted [of f "[]"] show ?thesis by simp
  next
    case False
    with Cons.prems Cons.IH have ih: "csv_fields False (join_with comma_char (map quote_field fs)) = fs" by simp
    have "csv_fields False (comma_char # join_with comma_char (map quote_field fs)) = [] # fs"
      using ih by simp
    with False Cons.prems csv_fields_quoted [of f "comma_char # join_with comma_char (map quote_field fs)"]
    show ?thesis by simp
  qed
qed

lemma csv_fields_join_plain:
  assumes "fs \<noteq> []" "\<forall>f\<in>set fs. quote_char \<notin> set f \<and> comma_char \<notin> set f"
  shows "csv_fields False (join_with comma_char fs) = fs"
  using assms
proof (induction fs)
  case Nil
  then show ?case by simp
next
  case (Cons f fs)
  show ?case
  proof (cases "fs = []")
    case True
    with Cons.prems csv_fields_plain [of f "[]"] show ?thesis by simp
  next
    case False
    with Cons.prems Cons.IH have ih: "csv_fields False (join_with comma_char fs) = fs" by simp
    have "csv_fields False (comma_char # join_with comma_char fs) = [] # fs"
      using ih by simp
    with False Cons.prems csv_fields_plain [of f "comma_char # join_with comma_char fs"]
    show ?thesis by simp
  qed
qed

definition int_field :: "string \<Rightarrow> jsnum" where
  "int_field v = js_or_num (parseInt v) (Fin 0)"

definition float_field :: "string \<Rightarrow> nullable_num" where
  "float_field v = (if v \<noteq> [] then JNum (parseFloat v) else JNull)"

definition set_prop :: "string \<Rightarrow> string \<Rightarrow> passenger \<Rightarrow> passenger" where
  "set_prop h v p =
     (if h = ''Name'' then p\<lparr>Name := Some v\<rparr>
      else if h = ''Sex'' then p\<lparr>Sex := Some v\<rparr>
      else if h = ''Ticket'' then p\<lparr>Ticket := Some v\<rparr>
      else if h = ''Cabin'' then p\<lparr>Cabin := Some v\<rparr>
      else if h = ''Embarked'' then p\<lparr>Embarked := Some v\<rparr>
      else p\<lparr>other_props := (other_props p)(h \<mapsto> v)\<rparr>)"

definition assign_field :: "string \<Rightarrow> string \<Rightarrow> passenger \<Rightarrow> passenger" where
  "assign_field h v p =
     (if h = ''PassengerId'' then p\<lparr>PassengerId := Some (int_field v)\<rparr>
      else if h = ''Survived'' then p\<lparr>Survived := Some (int_field v)\<rparr>
      else if h = ''Pclass'' then p\<lparr>Pclass := Some (int_field v)\<rparr>
      else if h = ''SibSp'' then p\<lparr>SibSp := Some (int_field v)\<rparr>
      else if h = ''Parch'' then p\<lparr>Parch := Some (int_field v)\<rparr>
      else if h = ''Age'' then p\<lparr>Age := Some (float_field v)\<rparr>
      else if h = ''Fare'' then p\<lparr>Fare := Some (float_field v)\<rparr>
      else set_prop h v p)"

definition field_value :: "string list \<Rightarrow> nat \<Rightarrow> string" where
  "field_value values i =
     (case nth_opt values i of
        None \<Rightarrow> []
      | Some v \<Rightarrow> (let v' = strip_quotes v in if v' \<noteq> [] then v' else []))"

fun assign_columns :: "string list \<Rightarrow> nat \<Rightarrow> string list \<Rightarrow> passenger \<Rightarrow> passenger" where
  "assign_columns [] i values p = p"
| "assign_columns (h # hs) i values p =
     assign_columns hs (Suc i) values (assign_field h (field_value values i) p)"

definition parse_row :: "string list \<Rightarrow> string \<Rightarrow> passenger" where
  "parse_row headers line = assign_columns headers 0 (parseCSVLine line) empty_passenger"

definition parseCSV :: "string \<Rightarrow> passenger list" where
  "parseCSV csvText =
     (let lines = js_split newline_char (js_trim csvText);
          headers = js_split comma_char (hd lines)
      in map (parse_row headers) (drop 1 lines))"

definition known_headers :: "string set" where
  "known_headers = {''PassengerId'', ''Survived'', ''Pclass'', ''Name'', ''Sex'', ''Age'', ''SibSp'',
                    ''Parch'', ''Ticket'', ''Fare'', ''Cabin'', ''Embarked''}"

definition passenger_of_props :: "(string \<rightharpoonup> string) \<Rightarrow> passenger" where
  "passenger_of_props m = \<lparr>PassengerId = map_option int_field (m ''PassengerId''),
     Survived = map_option int_field (m ''Survived''), Pclass = map_option int_field (m ''Pclass''),
     Name = m ''Name'', Sex = m ''Sex'', Age = map_option float_field (m ''Age''),
     SibSp = map_option int_field (m ''SibSp''), Parch = map_option int_field (m ''Parch''),
     Ticket = m ''Ticket'', Fare = map_option float_field (m ''Fare''), Cabin = m ''Cabin'',
     Embarked = m ''Embarked'', other_props = (\<lambda>k. if k \<in> known_headers then None else m k)\<rparr>"

lemma empty_passenger_props: "empty_passenger = passenger_of_props Map.empty"
  by (simp add: empty_passenger_def passenger_of_props_def)

lemma other_props_known:
  "h \<in> known_headers \<Longrightarrow>
   (\<lambda>k. if k \<in> known_headers then None else (m(h \<mapsto> v)) k) = (\<lambda>k. if k \<in> known_headers then None else m k)"
  by (rule ext) auto

lemma assign_field_props: "assign_field h v (passenger_of_props m) = passenger_of_props (m(h \<mapsto> v))"
proof (cases "h \<in> known_headers")
  case False
  then have ne: "h \<noteq> ''PassengerId''" "h \<noteq> ''Survived''" "h \<noteq> ''Pclass''" "h \<noteq> ''SibSp''"
    "h \<noteq> ''Parch''" "h \<noteq> ''Age''" "h \<noteq> ''Fare''" "h \<noteq> ''Name''" "h \<noteq> ''Sex''"
    "h \<noteq> ''Ticket''" "h \<noteq> ''Cabin''" "h \<noteq> ''Embarked''"
    by (simp_all add: known_headers_def)
  have "(\<lambda>k. if k \<in> known_headers then None else (m(h \<mapsto> v)) k) =
          (\<lambda>k. if k \<in> known_headers then None else m k)(h \<mapsto> v)"
    using False by (auto simp: fun_eq_iff)
  with ne show ?thesis
    by (simp add: assign_field_def set_prop_def passenger_of_props_def)
next
  case True
  then have "h = ''PassengerId'' \<or> h = ''Survived'' \<or> h = ''Pclass'' \<or> h = ''Name'' \<or>
    h = ''Sex'' \<or> h = ''Age'' \<or> h = ''SibSp'' \<or> h = ''Parch'' \<or> h = ''Ticket'' \<or>
    h = ''Fare'' \<or> h = ''Cabin'' \<or> h = ''Embarked''"
    by (simp only: known_headers_def insert_iff empty_iff simp_thms)
  then show ?thesis
    using other_props_known [OF True, of m v]
    by (elim disjE) (hypsubst, simp add: assign_field_def set_prop_def passenger_of_props_def)+
qed

lemma assign_columns_props:
  "assign_columns hs i vs (passenger_of_props m) =
     passenger_of_props (m(hs [\<mapsto>] map (field_value vs) [i..<i + length hs]))"
proof (induction hs arbitrary: i m)
  case Nil
  then show ?case by simp
next
  case (Cons h hs)
  have cols: "map (field_value vs) [i..<i + length (h # hs)] =
                field_value vs i # map (field_value vs) [Suc i..<Suc i + length hs]"
    by (simp add: upt_rec)
  have "assign_columns (h # hs) i vs (passenger_of_props m) =
          assign_columns hs (Suc i) vs (passenger_of_props (m(h \<mapsto> field_value vs i)))"
    by (simp only: assign_columns.simps assign_field_props)
  also have "\<dots> = passenger_of_props ((m(h \<mapsto> field_value vs i))(hs [\<mapsto>] map (field_value vs) [Suc i..<Suc i + length hs]))"
    by (rule Cons.IH)
  also have "\<dots> = passenger_of_props (m(h # hs [\<mapsto>] map (field_value vs) [i..<i + length (h # hs)]))"
    by (simp only: cols map_upds_Cons)
  finally show ?case .
qed


lemma parse_row_eq:
  "parse_row headers line =
     passenger_of_props (Map.empty(headers [\<mapsto>] map (field_value (parseCSVLine line)) [0..<length headers]))"
  using assign_columns_props [of headers 0 "parseCSVLine line" Map.empty]
  by (simp add: parse_row_def empty_passenger_props)

text \<open>
  C6. A parsed row is determined by its header-to-value map: each interface property is the
  coercion of the value in the last column whose header is its name (absent when no column
  has it), and every other header becomes a string property of its own.
\<close>

theorem parse_row_props:
  "parse_row headers line =
     passenger_of_props (Map.empty(headers [\<mapsto>] map (field_value (parseCSVLine line)) [0..<length headers]))"
  using assign_columns_props [of headers 0 "parseCSVLine line" Map.empty]
  by (simp add: parse_row_def empty_passenger_props)

lemma strip_quotes_id: "quote_char \<notin> set v \<Longrightarrow> strip_quotes v = v"
  by (simp add: strip_quotes_def filter_id_conv) blast

lemma field_values_plain:
  assumes "\<forall>v\<in>set vs. quote_char \<notin> set v"
  shows "map (field_value vs) [0..<length vs] = vs"
proof (rule nth_equalityI)
  fix i assume "i < length (map (field_value vs) [0..<length vs])"
  then have i: "i < length vs" by simp
  with assms have "quote_char \<notin> set (vs ! i)" by simp
  with i show "map (field_value vs) [0..<length vs] ! i = vs ! i"
    by (simp add: field_value_def nth_opt_def strip_quotes_id Let_def)
qed simp

lemma map_of_rev_distinct: "distinct (map fst xs) \<Longrightarrow> map_of (rev xs) = map_of xs"
  by (subst map_of_inject_set) (simp_all add: rev_map [symmetric])

text \<open>
  C7. Columns are mapped by the header row, not by position: permuting the columns of the
  header and of a row (distinct header names, values without quotes or commas) yields the
  same passenger.
\<close>

theorem parse_row_column_order:
  assumes "hs \<noteq> []" "distinct hs" "distinct hs'"
    and "length vs = length hs" "length vs' = length hs'"
    and "set (zip hs vs) = set (zip hs' vs')"
    and "\<forall>v\<in>set vs \<union> set vs'. quote_char \<notin> set v \<and> comma_char \<notin> set v"
  shows "parse_row hs (join_with comma_char vs) = parse_row hs' (join_with comma_char vs')"
proof -
  have "hs' \<noteq> []" using assms(1,4,6) by (cases hs; cases vs; auto)
  then have ne: "vs \<noteq> []" "vs' \<noteq> []" using assms(1,4,5) by auto
  have p: "parseCSVLine (join_with comma_char vs) = vs" "parseCSVLine (join_with comma_char vs') = vs'"
    using ne assms(7) by (simp_all add: parseCSVLine_fields csv_fields_join_plain)
  have f: "map (field_value vs) [0..<length hs] = vs" "map (field_value vs') [0..<length hs'] = vs'"
    using assms(4,5,7) field_values_plain [of vs] field_values_plain [of vs'] by auto
  have "map_of (zip hs vs) = map_of (zip hs' vs')"
    using assms(2-6) by (subst map_of_inject_set) simp_all
  then have "Map.empty(hs [\<mapsto>] vs) = Map.empty(hs' [\<mapsto>] vs')"
    using assms(2-5) by (simp add: map_upds_def map_of_rev_distinct)
  then show ?thesis by (simp add: parse_row_eq p f)
qed


lemma length_js_split: "length (js_split c s) = Suc (count_list s c)"
  by (induction s) (simp_all add: js_split_Cons del: js_split.simps(2))

text \<open>
  C8. \<open>parseCSV\<close> returns one record per line after the header: as many records as the
  trimmed text has line feeds.
\<close>

theorem parseCSV_length: "length (parseCSV t) = count_list (js_trim t) newline_char"
  by (simp add: parseCSV_def Let_def length_js_split)

lemma js_trim_all_ws: "\<forall>c\<in>set t. js_ws c \<Longrightarrow> js_trim t = []"
proof -
  assume "\<forall>c\<in>set t. js_ws c"
  then have d: "dropWhile js_ws t = []" by (simp add: dropWhile_eq_Nil_conv)
  show ?thesis by (simp only: js_trim_def d rev.simps(1) dropWhile.simps(1))
qed

text \<open>
  C9. A text of white space only (the empty text included) yields no records.
\<close>

theorem parseCSV_blank: "\<forall>c\<in>set t. js_ws c \<Longrightarrow> parseCSV t = []"
  using js_trim_all_ws [of t] by (simp add: parseCSV_def Let_def length_js_split)


subsection \<open>Well-typed records\<close>

text \<open>
  The integer columns of a parsed record hold integral Numbers: \<open>parseInt\<close> reads digits, so
  its result is an integer, rounded to a double, or an infinity on overflow; \<open>|| 0\<close>
  replaces \<open>NaN\<close>.
\<close>

fun int_num :: "jsnum \<Rightarrow> bool" where
  "int_num (Fin r) = (of_int \<lfloor>r\<rfloor> = r)"
| "int_num NaN = False"
| "int_num PosInf = True"
| "int_num NegInf = True"

definition int_prop_ok :: "jsnum option \<Rightarrow> bool" where
  "int_prop_ok v = (case v of None \<Rightarrow> True | Some x \<Rightarrow> int_num x)"

definition passenger_wf :: "passenger \<Rightarrow> bool" where
  "passenger_wf p = list_all int_prop_ok [PassengerId p, Survived p, Pclass p, SibSp p, Parch p]"

lemma fround_int_num: "int_num (fround (of_int m))"
proof -
  have "round_rat (of_int m :: rat) \<in> \<int>" by (rule round_rat_Ints)
  then have "of_int \<lfloor>round_rat (of_int m :: rat)\<rfloor> = round_rat (of_int m :: rat)"
    by (metis Ints_cases floor_of_int)
  then show ?thesis by (simp add: fround_def Let_def)
qed

lemma fround_signed_int_num: "int_num (fround ((if b then -1 else 1) * of_nat e))"
proof -
  have eq: "((if b then -1 else 1) * of_nat e :: rat) = of_int (if b then - int e else int e)" by simp
  show ?thesis by (simp only: eq fround_int_num)
qed

lemma nan_or_signed:
  fixes Z :: string
  shows "(if Z = [] then NaN else fround ((if n then -1 else 1) * of_nat d)) = NaN \<or>
    (\<exists>b e. (if Z = [] then NaN else fround ((if n then -1 else 1) * of_nat d)) =
      fround ((if b then -1 else 1) * of_nat e))"
  by (cases "Z = []") (simp_all only: if_True if_False simp_thms, blast)

lemma parseInt_cases: "parseInt v = NaN \<or> (\<exists>b e. parseInt v = fround ((if b then -1 else 1) * of_nat e))"
  unfolding parseInt_def Let_def by (rule nan_or_signed)

lemma int_field_int_num: "int_num (int_field v)"
  using parseInt_cases [of v] fround_signed_int_num by (auto simp: int_field_def js_or_num_def)

lemma passenger_of_props_wf: "passenger_wf (passenger_of_props m)"
  by (simp add: passenger_wf_def passenger_of_props_def int_prop_ok_def int_field_int_num
      split: option.splits)

text \<open>
  C18. Every record \<open>parseCSV\<close> returns is well typed: each of \<open>PassengerId\<close>,
  \<open>Survived\<close>, \<open>Pclass\<close>, \<open>SibSp\<close> and \<open>Parch\<close> is absent (its column is
  missing) or an integral Number, never \<open>NaN\<close>, whatever the text of the file.
\<close>

theorem parseCSV_wf: "list_all passenger_wf (parseCSV t)"
  by (simp add: parseCSV_def Let_def list_all_iff parse_row_eq passenger_of_props_wf)

subsection \<open>Line ends\<close>

lemma js_trim_crlf:
  assumes "h \<noteq> []" "\<not> js_ws (hd h)" "newline_char \<notin> set h"
  shows "newline_char \<notin> set (js_trim (h @ CHR 0x0D # newline_char # body)) \<or>
         (\<exists>b. js_trim (h @ CHR 0x0D # newline_char # body) = h @ CHR 0x0D # newline_char # b)"
proof -
  let ?t = "h @ CHR 0x0D # newline_char # body"
  have d: "dropWhile js_ws ?t = ?t" using assms(1,2) by (cases h) simp_all
  obtain W where W: "js_trim ?t @ W = ?t" using js_trim_prefix [of ?t] d by auto
  show ?thesis
  proof (cases "newline_char \<in> set (js_trim ?t)")
    case True
    from W obtain us where us: "(js_trim ?t = h @ us \<and> us @ W = CHR 0x0D # newline_char # body) \<or>
                                 (js_trim ?t @ us = h \<and> W = us @ CHR 0x0D # newline_char # body)"
      by (auto simp: append_eq_append_conv2)
    then show ?thesis
    proof
      assume a: "js_trim ?t = h @ us \<and> us @ W = CHR 0x0D # newline_char # body"
      with True assms(3) have "newline_char \<in> set us" by auto
      with a obtain b where "us = CHR 0x0D # newline_char # b"
        by (cases us; cases "tl us") (auto simp: Cons_eq_append_conv)
      with a show ?thesis by blast
    next
      assume b: "js_trim ?t @ us = h \<and> W = us @ CHR 0x0D # newline_char # body"
      have "set (js_trim ?t) \<subseteq> set (js_trim ?t @ us)" by simp
      then have "set (js_trim ?t) \<subseteq> set h" by (simp only: conjunct1 [OF b])
      with True assms(3) show ?thesis by blast
    qed
  qed simp
qed

lemma parse_row_no_Embarked: "''Embarked'' \<notin> set hs \<Longrightarrow> Embarked (parse_row hs line) = None"
  by (simp add: parse_row_eq passenger_of_props_def)

lemma join_with_not_Nil: "last ws \<noteq> [] \<Longrightarrow> ws \<noteq> [] \<Longrightarrow> join_with c ws \<noteq> []"
  by (induction c ws rule: join_with.induct) auto

text \<open>
  C19. Lines are split at line feeds only (line 72): in a file with CRLF line ends whose
  last header is \<open>Embarked\<close> the header line keeps its carriage return, the last header
  becomes \<open>"Embarked\r"\<close>, and no record receives a port of embarkation, whatever the
  rows hold.
\<close>

theorem parseCSV_crlf:
  assumes hs: "hs \<noteq> []" "last hs = ''Embarked''" "''Embarked'' \<notin> set (butlast hs)"
    and chars: "\<forall>h\<in>set hs. comma_char \<notin> set h \<and> newline_char \<notin> set h"
    and ws: "\<not> js_ws (hd (join_with comma_char hs))"
  shows "list_all (\<lambda>p. Embarked p = None)
           (parseCSV (join_with comma_char hs @ CHR 0x0D # newline_char # body))"
proof -
  let ?h = "join_with comma_char hs"
  let ?t = "?h @ CHR 0x0D # newline_char # body"
  have ne: "?h \<noteq> []" using hs by (intro join_with_not_Nil) simp_all
  have nl: "newline_char \<notin> set ?h" using chars by (intro notin_join_with) simp_all
  consider (one) "newline_char \<notin> set (js_trim ?t)"
    | (crlf) b where "js_trim ?t = ?h @ CHR 0x0D # newline_char # b"
    using js_trim_crlf [OF ne ws nl] by blast
  then show ?thesis
  proof cases
    case one
    then show ?thesis by (simp add: parseCSV_def Let_def js_split_single)
  next
    case crlf
    have nl': "newline_char \<notin> set (?h @ [CHR 0x0D])" using nl by simp
    have lines: "js_split newline_char (js_trim ?t) = (?h @ [CHR 0x0D]) # js_split newline_char b"
      using js_split_sep_append [OF nl', of b] crlf by simp
    have "?h @ [CHR 0x0D] = join_with comma_char (butlast hs @ [''Embarked'' @ [CHR 0x0D]])"
      using join_with_snoc_char [OF hs(1)] hs(2) by simp
    moreover have "\<forall>w\<in>set (butlast hs @ [''Embarked'' @ [CHR 0x0D]]). comma_char \<notin> set w"
      using chars by (auto dest: in_set_butlastD)
    ultimately have heads: "js_split comma_char (?h @ [CHR 0x0D]) = butlast hs @ [''Embarked'' @ [CHR 0x0D]]"
      by (simp add: js_split_join_with)
    have "''Embarked'' \<notin> set (butlast hs @ [''Embarked'' @ [CHR 0x0D]])" using hs(3) by simp
    then show ?thesis
      by (simp add: parseCSV_def Let_def lines heads list_all_iff parse_row_no_Embarked)
  qed
qed

subsection \<open>Witnesses\<close>

theorem parseCSVLine_no_quotes_witness:
  "parseCSVLine ''\"x\",y'' = [''x'', ''y''] \<and> list_all (\<lambda>f. quote_char \<notin> set f) (parseCSVLine ''\"x\",y'')"
  using parseCSVLine_no_quotes [of "''\"x\",y''"] by (simp add: parseCSVLine_fields list_all_iff)

theorem parseCSVLine_quoted_roundtrip_witness:
  "parseCSVLine (join_with comma_char (map quote_field [''a,b'', ''c''])) = [''a,b'', ''c'']"
  using parseCSVLine_quoted_roundtrip [of "[''a,b'', ''c'']"] by simp

theorem parse_row_column_order_witness:
  "parse_row [''Sex'', ''Age''] (join_with comma_char [''male'', ''22'']) =
   parse_row [''Age'', ''Sex''] (join_with comma_char [''22'', ''male''])"
  by (rule parse_row_column_order) (auto simp: insert_commute)

theorem parseCSV_blank_witness: "parseCSV '' \<newline> '' = []"
  using parseCSV_blank [of "'' \<newline> ''"] by (simp add: js_ws_def)

theorem parseCSVLine_split_witness:
  "parseCSVLine ''PassengerId,Survived,Pclass'' = [''PassengerId'', ''Survived'', ''Pclass'']"
  using parseCSVLine_split [of "''PassengerId,Survived,Pclass''"] by simp


theorem parseCSV_crlf_witness:
  "list_all (\<lambda>p. Embarked p = None)
     (parseCSV (''Sex,Embarked'' @ CHR 0x0D # newline_char # ''male,S'' @ CHR 0x0D # newline_char # ''female,C''))"
  using parseCSV_crlf [of "[''Sex'', ''Embarked'']" "''male,S'' @ CHR 0x0D # newline_char # ''female,C''"]
  by (simp add: js_ws_def)

end
