(* ===== verification/JsPrint.thy ===== *)
theory JsPrint
  imports JsString
begin

text \<open>
  Printing Numbers as the view does, and reading decimal texts back. \<open>string_of_nat\<close> is
  the decimal digits of a natural number (ECMA-262 \<open>Number::toString\<close> on a
  non-negative integer below \<open>10^21\<close>); \<open>toFixed1\<close> is
  \<open>Number.prototype.toFixed(1)\<close>; \<open>js_int_text\<close> is \<open>Number::toString\<close> on
  integral Numbers, \<open>None\<close> elsewhere. The lemmas read printed and typed texts back with
  \<open>parseInt\<close> and \<open>parseFloat\<close>: the digits of \<open>n\<close> give \<open>n\<close>, and
  \<open>digits . digits\<close> gives the exact decimal value, rounded once.
\<close>

fun string_of_nat :: "nat \<Rightarrow> string" where
  "string_of_nat n = (if n < 10 then [char_of (48 + n)]
                      else string_of_nat (n div 10) @ [char_of (48 + n mod 10)])"

declare string_of_nat.simps [simp del]

text \<open>
  Steps 10--11 of \<open>toFixed\<close> with one digit: the digits \<open>m\<close> of \<open>n\<close>, padded
  with zeros to at least two digits, and a point before the last one.
\<close>

definition fixed1_digits :: "nat \<Rightarrow> string" where
  "fixed1_digits n = (
     let m = (if n = 0 then ''0'' else string_of_nat n);
         k = length m;
         m = (if k \<le> 1 then replicate (2 - k) (CHR ''0'') @ m else m);
         k = length m
     in take (k - 1) m @ ''.'' @ drop (k - 1) m)"

definition toFixed1 :: "jsnum \<Rightarrow> string option" where
  "toFixed1 x = (case x of
      NaN \<Rightarrow> Some ''NaN''
    | PosInf \<Rightarrow> Some ''Infinity''
    | NegInf \<Rightarrow> Some ''-Infinity''
    | Fin r \<Rightarrow>
        if 10 ^ 21 \<le> \<bar>r\<bar> then None
        else Some ((if r < 0 then ''-'' else '''') @ fixed1_digits (nat \<lfloor>\<bar>r\<bar> * 10 + 1/2\<rfloor>)))"

definition js_int_text :: "jsnum \<Rightarrow> string option" where
  "js_int_text x = (case x of
      NaN \<Rightarrow> Some ''NaN''
    | PosInf \<Rightarrow> Some ''Infinity''
    | NegInf \<Rightarrow> Some ''-Infinity''
    | Fin r \<Rightarrow>
        if of_int \<lfloor>r\<rfloor> = r \<and> \<bar>r\<bar> < 10 ^ 21
        then Some ((if r < 0 then ''-'' else '''') @ string_of_nat (nat \<lfloor>\<bar>r\<bar>\<rfloor>))
        else None)"

text \<open>One decimal of a count of tenths: \<open>n\<close> tenths printed as \<open>n div 10\<close>, a point, a digit.\<close>

definition decimal1 :: "nat \<Rightarrow> string" where
  "decimal1 n = string_of_nat (n div 10) @ ''.'' @ [char_of (48 + n mod 10)]"

subsection \<open>Printing\<close>

lemma string_of_nat_small: "n < 10 \<Longrightarrow> string_of_nat n = [char_of (48 + n)]"
  by (simp add: string_of_nat.simps)

lemma string_of_nat_big:
  "10 \<le> n \<Longrightarrow> string_of_nat n = string_of_nat (n div 10) @ [char_of (48 + n mod 10)]"
  by (subst string_of_nat.simps) simp

lemma char_of_48: "char_of (48::nat) = CHR ''0''"
  by code_simp

lemma string_of_nat_0: "string_of_nat 0 = ''0''"
  by (simp add: string_of_nat.simps char_of_48)

lemma fixed1_digits_decimal1: "fixed1_digits n = decimal1 n"
proof (cases "n < 10")
  case True
  then show ?thesis by (simp add: fixed1_digits_def string_of_nat_small decimal1_def string_of_nat_0 char_of_48)
next
  case False
  then obtain d where d: "string_of_nat (n div 10) = d" "d \<noteq> []"
    by (metis string_of_nat.simps append_is_Nil_conv not_Cons_self2)
  from False show ?thesis by (simp add: fixed1_digits_def string_of_nat_big [of n] decimal1_def d)
qed

lemma toFixed1_nonneg:
  "0 \<le> y \<Longrightarrow> y < 10 ^ 21 \<Longrightarrow> toFixed1 (Fin y) = Some (decimal1 (nat \<lfloor>y * 10 + 1/2\<rfloor>))"
  by (simp add: toFixed1_def fixed1_digits_decimal1)

subsection \<open>Reading digits back\<close>

lemma digit_value_digit: "d < 10 \<Longrightarrow> digit_value (char_of (48 + d)) = Some d"
  by (simp add: digit_value_def Let_def of_char_of)

lemma string_of_nat_digits: "c \<in> set (string_of_nat n) \<Longrightarrow> \<exists>d<(10::nat). c = char_of (48 + d)"
proof (induction n rule: string_of_nat.induct)
  case (1 n)
  show ?case
  proof (cases "n < 10")
    case True
    with "1.prems" show ?thesis by (auto simp: string_of_nat_small)
  next
    case False
    with "1.prems" have "c \<in> set (string_of_nat (n div 10)) \<or> c = char_of (48 + n mod 10)"
      by (auto simp: string_of_nat_big [of n])
    then show ?thesis
    proof
      assume "c \<in> set (string_of_nat (n div 10))"
      with False show ?thesis by (rule "1.IH")
    next
      assume "c = char_of (48 + n mod 10)"
      then show ?thesis by (intro exI [of _ "n mod 10"]) simp
    qed
  qed
qed

lemma digits_val_snoc: "digits_val r (xs @ [c]) = digits_val r xs * r + (case digit_value c of Some d \<Rightarrow> d | None \<Rightarrow> 0)"
  by (simp add: digits_val_def)

lemma digits_val_string_of_nat: "digits_val 10 (string_of_nat n) = n"
proof (induction n rule: string_of_nat.induct)
  case (1 n)
  show ?case
  proof (cases "n < 10")
    case True
    then show ?thesis by (simp add: string_of_nat_small digits_val_def digit_value_digit)
  next
    case False
    with "1.IH" show ?thesis
      by (simp add: string_of_nat_big [of n] digits_val_snoc digit_value_digit)
  qed
qed

lemma string_of_nat_dec: "list_all is_dec (string_of_nat n)"
  unfolding list_all_iff
proof
  fix c assume "c \<in> set (string_of_nat n)"
  then obtain d :: nat where "d < 10" "c = char_of (48 + d)" using string_of_nat_digits by blast
  then show "is_dec c" by (simp add: is_radix_digit_def digit_value_digit)
qed

lemma digit_char_facts:
  assumes d: "d < (10::nat)"
  shows "\<not> js_ws (char_of (48 + d)) \<and> char_of (48 + d) \<notin> set ''-+xX''"
proof -
  have o: "of_char (char_of (48 + d)) = (48 + d :: nat)" using d by (simp add: of_char_of)
  have "of_char (char_of (48 + d)) \<notin> {of_char (CHR ''-''), of_char (CHR ''+''), of_char (CHR ''x''),
          of_char (CHR ''X'') :: nat}"
    using o d by simp
  then have "char_of (48 + d) \<notin> set ''-+xX''" by (auto dest: arg_cong [where f = "of_char :: char \<Rightarrow> nat"])
  moreover have "\<not> js_ws (char_of (48 + d))" using o d by (simp add: js_ws_def)
  ultimately show ?thesis by blast
qed

lemma string_of_nat_chars:
  "c \<in> set (string_of_nat n) \<Longrightarrow> is_dec c \<and> \<not> js_ws c \<and> c \<notin> set ''-+xX''"
  using string_of_nat_digits [of c n] digit_char_facts
  by (auto simp: is_radix_digit_def digit_value_digit)

lemma string_of_nat_not_Nil: "string_of_nat n \<noteq> []"
  by (subst string_of_nat.simps) simp

subsection \<open>Reading decimal fractions\<close>

lemma digits_val_append:
  "digits_val r (xs @ ys) = digits_val r xs * r ^ length ys + digits_val r ys"
proof (induction ys rule: rev_induct)
  case Nil
  then show ?case by (simp add: digits_val_def)
next
  case (snoc y ys)
  then show ?case
    by (simp only: append_assoc [symmetric] digits_val_snoc) (simp add: algebra_simps)
qed

lemma digit_value_0 [simp]: "digit_value (CHR ''0'') = Some 0"
  by (simp add: digit_value_def)

lemma digits_val_zeros [simp]: "digits_val r (replicate m (CHR ''0'')) = 0"
  by (induction m) (simp_all add: digits_val_def)

lemma digits_val_zeros_append: "digits_val r (replicate m (CHR ''0'') @ ys) = digits_val r ys"
  by (simp add: digits_val_append)

lemma is_dec_code: "is_dec c \<Longrightarrow> 48 \<le> (of_char c :: nat) \<and> (of_char c :: nat) \<le> 57"
  by (simp add: is_radix_digit_def digit_value_def Let_def split: if_splits)

lemma is_dec_char:
  assumes "is_dec c"
  shows "\<not> js_ws c \<and> c \<noteq> CHR ''-'' \<and> c \<noteq> CHR ''+'' \<and> c \<noteq> CHR ''.'' \<and> c \<noteq> CHR ''e''
         \<and> c \<noteq> CHR ''I''"
proof -
  have r: "48 \<le> (of_char c :: nat) \<and> (of_char c :: nat) \<le> 57" using is_dec_code [OF assms] .
  have ne: "c \<noteq> d" if "(of_char d :: nat) < 48 \<or> 57 < (of_char d :: nat)" for d
    using that r by auto
  show ?thesis using r by (auto simp: js_ws_def intro!: ne)
qed

lemma not_is_dec_e: "\<not> is_dec (CHR ''e'')"
  by (simp add: is_radix_digit_def digit_value_def)

lemma not_is_dec_dot: "\<not> is_dec (CHR ''.'')"
  by (simp add: is_radix_digit_def digit_value_def)

lemma dec_prefix:
  assumes "list_all is_dec xs" "ys = [] \<or> \<not> is_dec (hd ys)"
  shows "takeWhile is_dec (xs @ ys) = xs \<and> dropWhile is_dec (xs @ ys) = ys"
  using assms by (cases ys) (simp_all add: takeWhile_append2 dropWhile_append2 list_all_iff)

lemma take2_append: "xs \<noteq> [] \<Longrightarrow> set (take 2 (xs @ ys)) \<subseteq> set xs \<union> set (take 1 ys)"
proof -
  assume "xs \<noteq> []"
  then obtain a zs where xs: "xs = a # zs" by (cases xs) simp_all
  have "set (take 1 (zs @ ys)) \<subseteq> set zs \<union> set (take 1 ys)" by (cases zs) auto
  then show ?thesis by (auto simp: xs numeral_2_eq_2)
qed

text \<open>
  \<open>parseInt\<close> of the digits of \<open>n\<close>, possibly followed by a decimal point and
  anything: the digits before the point.
\<close>

lemma parseInt_string_of_nat_prefix:
  assumes n: "n < 2 ^ 53" and rest: "rest = [] \<or> hd rest = CHR ''.''"
  shows "parseInt (string_of_nat n @ rest) = Fin (of_nat n)"
proof -
  let ?D = "string_of_nat n"
  let ?S = "?D @ rest"
  have ne: "?D \<noteq> []" by (rule string_of_nat_not_Nil)
  have hdS: "hd ?S = hd ?D" using ne by simp
  have hd: "hd ?D \<in> set ?D" using ne by simp
  note hc = string_of_nat_chars [OF hd]
  have ws: "dropWhile js_ws ?S = ?S" using hc ne by (cases ?D) simp_all
  have sign: "hd ?S \<noteq> CHR ''-'' \<and> hd ?S \<noteq> CHR ''+''" using hc hdS by auto
  have nohex: "take 2 ?S \<noteq> ''0x'' \<and> take 2 ?S \<noteq> ''0X''"
  proof -
    have r1: "set (take 1 rest) \<subseteq> {CHR ''.''}" using rest by (cases rest) auto
    have nx: "CHR ''x'' \<notin> set (take 2 ?S)" "CHR ''X'' \<notin> set (take 2 ?S)"
      using take2_append [OF ne, of rest] r1 string_of_nat_chars [of _ n] by auto
    show ?thesis
    proof (intro conjI notI)
      assume e: "take 2 ?S = ''0x''"
      have "CHR ''x'' \<in> set (take 2 ?S)" by (simp only: e) simp
      with nx(1) show False by contradiction
    next
      assume e: "take 2 ?S = ''0X''"
      have "CHR ''X'' \<in> set (take 2 ?S)" by (simp only: e) simp
      with nx(2) show False by contradiction
    qed
  qed
  have nd: "rest = [] \<or> \<not> is_dec (hd rest)" using rest not_is_dec_dot by auto
  have tw: "takeWhile (is_radix_digit 10) ?S = ?D"
    using dec_prefix [OF string_of_nat_dec nd] by simp
  show ?thesis
    using ne ws sign nohex n
    by (simp add: parseInt_def Let_def tw digits_val_string_of_nat fround_nat)
qed

lemma parseFloat_digits:
  assumes ip: "ip \<noteq> []" "list_all is_dec ip" and fp: "list_all is_dec fp"
    and r: "r = [] \<or> hd r = CHR ''e''" and sg: "sg = [] \<or> sg = ''-''"
  shows "parseFloat (sg @ ip @ (if fp = [] then [] else CHR ''.'' # fp) @ r) =
         fround ((if sg = [] then 1 else -1) * of_nat (digits_val 10 (ip @ fp))
                 * power_int 10 (exponent_part r - int (length fp)))"
proof -
  define X where "X = (if fp = [] then [] else CHR ''.'' # fp) @ r"
  have r_nd: "r = [] \<or> \<not> is_dec (hd r)" using r not_is_dec_e by auto
  have X_nd: "X = [] \<or> \<not> is_dec (hd X)" using r_nd not_is_dec_dot by (auto simp: X_def)
  have s1: "takeWhile is_dec (ip @ X) = ip" "dropWhile is_dec (ip @ X) = X"
    using dec_prefix [OF ip(2) X_nd] by simp_all
  have s2: "takeWhile is_dec (fp @ r) = fp" "dropWhile is_dec (fp @ r) = r"
    using dec_prefix [OF fp r_nd] by simp_all
  have hdec: "is_dec (hd ip)" using ip by (cases ip) simp_all
  note hc = is_dec_char [OF hdec]
  obtain c ip' where c: "ip = c # ip'" using ip(1) by (cases ip) simp_all
  have inf: "(take 8 (ip @ X) = ''Infinity'') = False" using hc by (simp add: c)
  have T: "dropWhile js_ws (sg @ ip @ X) = sg @ ip @ X"
    using sg hc by (auto simp: c js_ws_def)
  have neg: "(sg @ ip @ X \<noteq> [] \<and> hd (sg @ ip @ X) = CHR ''-'') = (sg \<noteq> [])"
    using sg hc by (auto simp: c)
  have U: "(if sg @ ip @ X \<noteq> [] \<and> (hd (sg @ ip @ X) = CHR ''-'' \<or> hd (sg @ ip @ X) = CHR ''+'')
            then tl (sg @ ip @ X) else sg @ ip @ X) = ip @ X"
    using sg hc by (auto simp: c)
  have dot: "(X \<noteq> [] \<and> hd X = CHR ''.'') = (fp \<noteq> [])"
    using r by (auto simp: X_def)
  have tlX: "fp \<noteq> [] \<Longrightarrow> tl X = fp @ r" by (simp add: X_def)
  have Xr: "fp = [] \<Longrightarrow> X = r" by (simp add: X_def)
  have sgn: "(if sg \<noteq> [] then -1 else 1) = (if sg = [] then 1 else (-1 :: rat))" by simp
  have "parseFloat (sg @ ip @ X) =
         fround ((if sg = [] then 1 else -1) * of_nat (digits_val 10 (ip @ fp))
                 * power_int 10 (exponent_part r - int (length fp)))"
  proof (cases "fp = []")
    case True
    then show ?thesis
      unfolding parseFloat_def Let_def T neg U inf s1 dot if_False sgn
      using ip(1) by (simp add: Xr)
  next
    case False
    then show ?thesis
      unfolding parseFloat_def Let_def T neg U inf s1 dot if_False sgn
      using ip(1) by (simp add: tlX s2)
  qed
  then show ?thesis by (simp only: X_def)
qed


lemma exponent_part_Nil [simp]: "exponent_part [] = 0"
  by (simp add: exponent_part_def)

lemma parseFloat_int_digits:
  assumes "ip \<noteq> []" "list_all is_dec ip" "r = [] \<or> hd r = CHR ''e''" "sg = [] \<or> sg = ''-''"
  shows "parseFloat (sg @ ip @ r) =
         fround ((if sg = [] then 1 else -1) * of_nat (digits_val 10 ip) * power_int 10 (exponent_part r))"
  using parseFloat_digits [of ip "[]" r sg] assms by simp

lemma parseFloat_frac_digits:
  assumes "ip \<noteq> []" "list_all is_dec ip" "fp \<noteq> []" "list_all is_dec fp"
    "r = [] \<or> hd r = CHR ''e''" "sg = [] \<or> sg = ''-''"
  shows "parseFloat (sg @ ip @ CHR ''.'' # fp @ r) =
         fround ((if sg = [] then 1 else -1) * of_nat (digits_val 10 (ip @ fp))
                 * power_int 10 (exponent_part r - int (length fp)))"
  using parseFloat_digits [of ip fp r sg] assms by simp

end
