(* ===== verification/Predictor.thy ===== *)
theory Predictor
  imports Summarizer CsvParser JsPrint
begin

text \<open>
  The \<open>TitanicPredictor\<close> component as a state machine. Its React state (lines 37--50)
  is the record \<open>ui_state\<close>; the one-shot load effect (lines 53--69) is
  \<open>loadData\<close>, applied to the outcome of the fetch (\<open>FetchOk\<close> with the response
  body, whatever the HTTP status, or \<open>FetchFailed\<close> when the fetch or the body read
  rejects); the form's \<open>onChange\<close> handlers (lines 280--365) are
  \<open>apply_form_event\<close>; the button's \<open>handlePredict\<close> (lines 200--211) builds the
  passenger object \<open>handlePredict_passenger\<close> and stores the scorer's result. While
  \<open>loading\<close> holds the component renders only the loading screen (lines 213--222), so
  no form or button event can occur; the effect has an empty dependency list and completes
  once, which \<open>ui_step\<close> expresses by accepting \<open>LoadDone\<close> only while loading (the
  flag is cleared by the load and by nothing else).
\<close>

definition default_input :: prediction_input where
  "default_input = \<lparr>pclass = Fin 3, sex = ''male'', age = Fin 30, sibsp = Fin 0, parch = Fin 0,
                    fare = Fin 15, embarked = ''S''\<rparr>"

record ui_state =
  data :: "passenger list"
  modelStats :: "model_stats option"
  prediction :: "prediction option"
  loading :: bool
  input :: prediction_input

definition initial_state :: ui_state where
  "initial_state = \<lparr>data = [], modelStats = None, prediction = None, loading = True,
                    input = default_input\<rparr>"

datatype fetch_result = FetchOk string | FetchFailed

definition loadData :: "fetch_result \<Rightarrow> ui_state \<Rightarrow> ui_state" where
  "loadData r s = (case r of
      FetchOk csvText \<Rightarrow>
        (let parsedData = parseCSV csvText;
             s1 = s\<lparr>data := parsedData\<rparr>;
             s2 = s1\<lparr>modelStats := Some (calculateModelStats parsedData)\<rparr>
         in s2\<lparr>loading := False\<rparr>)
    | FetchFailed \<Rightarrow> s\<lparr>loading := False\<rparr>)"

datatype form_event =
  SetPclass string | SetSex string | SetAge string | SetFare string
  | SetSibsp string | SetParch string | SetEmbarked string

fun apply_form_event :: "form_event \<Rightarrow> prediction_input \<Rightarrow> prediction_input" where
  "apply_form_event (SetPclass v) i = i\<lparr>pclass := parseInt v\<rparr>"
| "apply_form_event (SetSex v) i = i\<lparr>sex := v\<rparr>"
| "apply_form_event (SetAge v) i = i\<lparr>age := parseInt v\<rparr>"
| "apply_form_event (SetFare v) i = i\<lparr>fare := parseFloat v\<rparr>"
| "apply_form_event (SetSibsp v) i = i\<lparr>sibsp := parseInt v\<rparr>"
| "apply_form_event (SetParch v) i = i\<lparr>parch := parseInt v\<rparr>"
| "apply_form_event (SetEmbarked v) i = i\<lparr>embarked := v\<rparr>"

definition handlePredict_passenger :: "prediction_input \<Rightarrow> passenger" where
  "handlePredict_passenger i = empty_passenger\<lparr>Sex := Some (sex i), Pclass := Some (pclass i),
     Age := Some (JNum (age i)), SibSp := Some (sibsp i), Parch := Some (parch i),
     Fare := Some (JNum (fare i)), Embarked := Some (embarked i)\<rparr>"

definition handlePredict :: "ui_state \<Rightarrow> ui_state" where
  "handlePredict s = s\<lparr>prediction := Some (predictSurvival (handlePredict_passenger (input s)))\<rparr>"

datatype event = LoadDone fetch_result | FormChange form_event | Predict

fun ui_step :: "ui_state \<Rightarrow> event \<Rightarrow> ui_state option" where
  "ui_step s (LoadDone r) = (if loading s then Some (loadData r s) else None)"
| "ui_step s (FormChange e) =
     (if loading s then None else Some (s\<lparr>input := apply_form_event e (input s)\<rparr>))"
| "ui_step s Predict = (if loading s then None else Some (handlePredict s))"

fun run :: "ui_state \<Rightarrow> event list \<Rightarrow> ui_state option" where
  "run s [] = Some s"
| "run s (e # es) = (case ui_step s e of None \<Rightarrow> None | Some s' \<Rightarrow> run s' es)"

inductive reachable :: "ui_state \<Rightarrow> bool" where
  init: "reachable initial_state"
| step: "reachable s \<Longrightarrow> ui_step s e = Some s' \<Longrightarrow> reachable s'"

fun_cases ui_step_LoadDoneE: "ui_step s (LoadDone r) = Some s'"
fun_cases ui_step_FormChangeE: "ui_step s (FormChange e) = Some s'"
fun_cases ui_step_PredictE: "ui_step s Predict = Some s'"

definition prediction_ok :: "prediction \<Rightarrow> bool" where
  "prediction_ok pr = (case probability pr of
      Fin r \<Rightarrow> 0 \<le> r \<and> r \<le> 1 \<and> survived pr = (1/2 < r)
    | _ \<Rightarrow> False)"

definition ui_inv :: "ui_state \<Rightarrow> bool" where
  "ui_inv s =
     ((loading s \<longrightarrow> data s = [] \<and> modelStats s = None \<and> prediction s = None \<and>
                     input s = default_input) \<and>
      (case modelStats s of None \<Rightarrow> True
       | Some ms \<Rightarrow> ms = calculateModelStats (data s) \<and> \<not> loading s) \<and>
      (case prediction s of None \<Rightarrow> True | Some pr \<Rightarrow> prediction_ok pr))"

subsection \<open>Lemmas\<close>

lemma predictSurvival_ok: "prediction_ok (predictSurvival p)"
proof -
  obtain y where "raw_score p = Fin y" using raw_score_near by blast
  then show ?thesis
    by (simp add: prediction_ok_def predictSurvival_raw_score clamp01_Fin half_less_clamp_iff)
qed

lemma run_append:
  "run s (es @ fs) = (case run s es of None \<Rightarrow> None | Some s' \<Rightarrow> run s' fs)"
  by (induction s es rule: run.induct) (auto split: option.splits)

lemma reachable_run: "reachable s \<longleftrightarrow> (\<exists>es. run initial_state es = Some s)"
proof
  assume "reachable s"
  then show "\<exists>es. run initial_state es = Some s"
  proof (induction rule: reachable.induct)
    case init
    have "run initial_state [] = Some initial_state" by simp
    then show ?case by blast
  next
    case (step s e s')
    then obtain es where "run initial_state es = Some s" by blast
    with step.hyps(2) have "run initial_state (es @ [e]) = Some s'" by (simp add: run_append)
    then show ?case by blast
  qed
next
  assume "\<exists>es. run initial_state es = Some s"
  then obtain es where "run initial_state es = Some s" by blast
  moreover have "reachable s0 \<Longrightarrow> run s0 es = Some s \<Longrightarrow> reachable s" for s0
  proof (induction es arbitrary: s0)
    case (Cons e es)
    then show ?case by (auto split: option.splits intro: reachable.step)
  qed simp
  ultimately show "reachable s" using reachable.init by blast
qed

lemma ui_inv_initial: "ui_inv initial_state"
  by (simp add: ui_inv_def initial_state_def)

lemma loadData_fields:
  "data (loadData r s) = (case r of FetchOk t \<Rightarrow> parseCSV t | FetchFailed \<Rightarrow> data s) \<and>
   modelStats (loadData r s) =
     (case r of FetchOk t \<Rightarrow> Some (calculateModelStats (parseCSV t)) | FetchFailed \<Rightarrow> modelStats s) \<and>
   prediction (loadData r s) = prediction s \<and> \<not> loading (loadData r s) \<and> input (loadData r s) = input s"
  by (cases r) (simp_all add: loadData_def Let_def)

lemma ui_step_preserves_inv:
  assumes "ui_inv s" "ui_step s e = Some s'"
  shows "ui_inv s'"
proof (cases e)
  case (LoadDone r)
  with assms(2) have "loading s" "s' = loadData r s" by (auto split: if_splits)
  with assms(1) show ?thesis
    using loadData_fields [of r s] by (cases r) (simp_all add: ui_inv_def)
next
  case (FormChange f)
  with assms(2) have "\<not> loading s" "s' = s\<lparr>input := apply_form_event f (input s)\<rparr>"
    by (auto split: if_splits)
  with assms(1) show ?thesis by (simp add: ui_inv_def split: option.splits)
next
  case Predict
  with assms(2) have "\<not> loading s" "s' = handlePredict s" by (auto split: if_splits)
  with assms(1) show ?thesis
    by (simp add: ui_inv_def handlePredict_def predictSurvival_ok split: option.splits)
qed

lemma reachable_inv: "reachable s \<Longrightarrow> ui_inv s"
  by (induction rule: reachable.induct) (auto intro: ui_inv_initial ui_step_preserves_inv)

lemma default_input_prediction:
  "predictSurvival (handlePredict_passenger default_input) = \<lparr>probability = fround (1/10), survived = False\<rparr>"
  by code_simp

lemma run_reachable_inv: "run initial_state es = Some s \<Longrightarrow> ui_inv s"
  using reachable_run reachable_inv by blast

text \<open>
  C13. Every sequence of events the component accepts from its initial state leads to a
  state satisfying the invariant \<open>ui_inv\<close>: while loading, no data, no summary, no
  prediction and the default form; a summary, when present, is \<open>calculateModelStats\<close> of the
  stored records and loading has ended; a prediction, when present, has a finite probability
  in [0, 1] and a verdict that is exactly "probability above 0.5".
\<close>

theorem run_ui_inv: "run initial_state es = Some s \<Longrightarrow> ui_inv s"
  by (rule run_reachable_inv)

lemma ui_step_frozen:
  "\<not> loading s \<Longrightarrow> ui_step s e = Some s' \<Longrightarrow>
   data s' = data s \<and> modelStats s' = modelStats s \<and> \<not> loading s'"
  by (cases e) (auto simp: handlePredict_def split: if_splits)

text \<open>
  C14. After loading, no sequence of events changes the records or the summary, and
  loading never restarts: the records are immutable for the session and the summary is
  never updated incrementally (spec sections 3 and 5).
\<close>

theorem run_data_frozen:
  "\<not> loading s \<Longrightarrow> run s es = Some s' \<Longrightarrow>
   data s' = data s \<and> modelStats s' = modelStats s \<and> \<not> loading s'"
proof (induction es arbitrary: s)
  case (Cons e es)
  then obtain s1 where "ui_step s e = Some s1" "run s1 es = Some s'" by (auto split: option.splits)
  with Cons.prems(1) Cons.IH [of s1] ui_step_frozen [of s e s1] show ?case by simp
qed simp

text \<open>
  C15. While loading, the only event is the completion of the load, and it always ends the
  loading state, whether the fetch succeeded or failed.
\<close>

theorem ui_step_loading:
  "loading s \<Longrightarrow> ui_step s e = Some s' \<Longrightarrow>
   (\<exists>r. e = LoadDone r \<and> s' = loadData r s) \<and> \<not> loading s'"
  using loadData_fields by (cases e) auto

subsection \<open>The age field of the form and of the dataset\<close>

lemma parse_row_single:
  assumes "quote_char \<notin> set v" "comma_char \<notin> set v" "v \<noteq> []"
  shows "parse_row [h] v = passenger_of_props (Map.empty(h \<mapsto> v))"
proof -
  have "parseCSVLine v = [v]"
    using assms by (simp add: parseCSVLine_fields csv_fields_split js_split_single)
  then show ?thesis
    using assms by (simp add: parse_row_eq field_value_def nth_opt_def strip_quotes_id Let_def)
qed

lemma decimal_text_value:
  "of_nat (digits_val 10 (string_of_nat n @ ds)) * power_int 10 (- int (length ds)) =
   (of_nat n + of_nat (digits_val 10 ds) / 10 ^ length ds :: rat)"
  by (simp add: digits_val_append digits_val_string_of_nat power_int_minus field_simps)

lemma decimal_text_chars:
  assumes "list_all is_dec ds"
  shows "quote_char \<notin> set (string_of_nat n @ CHR ''.'' # ds) \<and>
         comma_char \<notin> set (string_of_nat n @ CHR ''.'' # ds)"
proof -
  have "\<forall>c \<in> set (string_of_nat n @ CHR ''.'' # ds). is_dec c \<or> c = CHR ''.''"
    using assms string_of_nat_dec [of n] by (auto simp: list_all_iff)
  moreover have "\<not> is_dec quote_char" "\<not> is_dec comma_char"
    by (simp_all add: is_radix_digit_def digit_value_def)
  ultimately show ?thesis by auto
qed

text \<open>
  C16. The form reads the age with \<open>parseInt\<close> (line 311) while the dataset reads the
  same column with \<open>parseFloat\<close> (line 91): for every typed decimal age \<open>n.ds\<close> the
  form stores the whole number \<open>n\<close>, dropping the fraction, whereas a CSV row with that
  text in its \<open>Age\<close> column holds the decimal value \<open>n + ds / 10^|ds|\<close> rounded once.
  A 60.5-year-old is thus over 60 in the dataset and not in the form.
\<close>

theorem form_age_truncated:
  assumes "n < 2 ^ 53" "ds \<noteq> []" "list_all is_dec ds"
  shows "age (apply_form_event (SetAge (string_of_nat n @ CHR ''.'' # ds)) i) = Fin (of_nat n) \<and>
         Age (parse_row [''Age''] (string_of_nat n @ CHR ''.'' # ds)) =
           Some (JNum (fround (of_nat n + of_nat (digits_val 10 ds) / 10 ^ length ds)))"
proof -
  let ?v = "string_of_nat n @ CHR ''.'' # ds"
  have i: "parseInt ?v = Fin (of_nat n)"
    using parseInt_string_of_nat_prefix [OF assms(1), of "CHR ''.'' # ds"] by simp
  have nil: "([] :: string) = [] \<or> hd ([] :: string) = CHR ''e''" "([] :: string) = [] \<or> [] = ''-''" by simp_all
  have f: "parseFloat ?v = fround (of_nat n + of_nat (digits_val 10 ds) / 10 ^ length ds)"
    using parseFloat_frac_digits [OF string_of_nat_not_Nil string_of_nat_dec assms(2,3) nil]
    by (simp add: decimal_text_value)
  have row: "parse_row [''Age''] ?v = passenger_of_props (Map.empty(''Age'' \<mapsto> ?v))"
    using decimal_text_chars [OF assms(3), of n] by (intro parse_row_single) simp_all
  show ?thesis using i f row by (simp add: passenger_of_props_def float_field_def)
qed

subsection \<open>Witnesses\<close>

lemma run_failed_predict:
  "run initial_state [LoadDone FetchFailed, Predict] =
   Some \<lparr>data = [], modelStats = None, prediction = Some \<lparr>probability = fround (1/10), survived = False\<rparr>,
         loading = False, input = default_input\<rparr>"
  by (simp add: initial_state_def loadData_def handlePredict_def default_input_prediction)

theorem run_ui_inv_witness:
  "prediction_ok \<lparr>probability = fround (1/10), survived = False\<rparr>"
  using run_ui_inv [OF run_failed_predict] by (simp add: ui_inv_def)

theorem run_data_frozen_witness:
  "data (handlePredict (initial_state\<lparr>loading := False\<rparr>)) = [] \<and>
   modelStats (handlePredict (initial_state\<lparr>loading := False\<rparr>)) = None \<and>
   \<not> loading (handlePredict (initial_state\<lparr>loading := False\<rparr>))"
  using run_data_frozen [of "initial_state\<lparr>loading := False\<rparr>" "[Predict]" "handlePredict (initial_state\<lparr>loading := False\<rparr>)"]
  by (simp add: initial_state_def)

theorem ui_step_loading_witness: "\<not> loading (loadData FetchFailed initial_state)"
  using ui_step_loading [of initial_state "LoadDone FetchFailed" "loadData FetchFailed initial_state"]
  by (simp add: initial_state_def)

theorem form_age_truncated_witness:
  "age (apply_form_event (SetAge ''60.5'') default_input) = Fin 60 \<and>
   Age (parse_row [''Age''] ''60.5'') = Some (JNum (fround (121/2)))"
proof -
  have t: "string_of_nat 60 @ CHR ''.'' # ''5'' = ''60.5''" by code_simp
  have d: "digits_val 10 ''5'' = 5" "is_dec (CHR ''5'')" by code_simp+
  show ?thesis using form_age_truncated [of 60 "''5''" default_input] by (simp add: t d)
qed

end
