(* ===== verification/ScorerRules.thy ===== *)
theory ScorerRules
  imports Scorer
begin

text \<open>
  Properties of the individual scoring rules of \<open>predictSurvival\<close> that the spec states
  (section 8: the effect of the sex rule; section 4.2: which attributes take part and how
  absent ones default), proved against the model of \<open>Scorer\<close>.
\<close>

lemma spec_score_female_male:
  "spec_score (p\<lparr>Sex := Some ''female''\<rparr>) = spec_score (p\<lparr>Sex := Some ''male''\<rparr>) + 3/5"
  by (simp add: spec_score_def adjustments_def sex_adj_def class_adj_def age_adj_def family_adj_def
      fare_adj_def pclass_is_def familySize_def Let_def)

lemma spec_probability_in_range:
  "0 \<le> spec_score p \<Longrightarrow> spec_score p \<le> 1 \<Longrightarrow> spec_probability p = spec_score p"
  by (simp add: spec_probability_def)

text \<open>
  C20. Where clamping does not intervene (the male score is at least 0 and the female score
  at most 1), changing the sex from male to female raises the probability by 0.60 up to the
  rounding of the double arithmetic, at most \<open>10 * 2^-52\<close> (spec section 8).
\<close>

theorem predictSurvival_sex_effect:
  assumes "0 \<le> spec_score (p\<lparr>Sex := Some ''male''\<rparr>)" "spec_score (p\<lparr>Sex := Some ''female''\<rparr>) \<le> 1"
  shows "\<exists>a b. probability (predictSurvival (p\<lparr>Sex := Some ''male''\<rparr>)) = Fin a \<and>
               probability (predictSurvival (p\<lparr>Sex := Some ''female''\<rparr>)) = Fin b \<and>
               \<bar>(b - a) - 3/5\<bar> \<le> 10/2^52"
proof -
  obtain a where a: "probability (predictSurvival (p\<lparr>Sex := Some ''male''\<rparr>)) = Fin a"
      "\<bar>a - spec_probability (p\<lparr>Sex := Some ''male''\<rparr>)\<bar> \<le> 5/2^52"
    using probability_near by blast
  obtain b where b: "probability (predictSurvival (p\<lparr>Sex := Some ''female''\<rparr>)) = Fin b"
      "\<bar>b - spec_probability (p\<lparr>Sex := Some ''female''\<rparr>)\<bar> \<le> 5/2^52"
    using probability_near by blast
  note fm = spec_score_female_male [of p]
  have m: "spec_probability (p\<lparr>Sex := Some ''male''\<rparr>) = spec_score (p\<lparr>Sex := Some ''male''\<rparr>)"
    using assms fm by (intro spec_probability_in_range) simp_all
  have f: "spec_probability (p\<lparr>Sex := Some ''female''\<rparr>) = spec_score (p\<lparr>Sex := Some ''female''\<rparr>)"
    using assms fm by (intro spec_probability_in_range) simp_all
  have "\<bar>(b - a) - 3/5\<bar> \<le> 10/2^52"
    using a(2) b(2) fm unfolding m f abs_le_iff by simp
  with a(1) b(1) show ?thesis by blast
qed

lemma spec_score_step:
  assumes "of_int k / 20 + 1/2 < spec_score p"
  shows "of_int (k + 1) / 20 + 1/2 \<le> spec_score p"
proof -
  obtain m where m: "(spec_score p - 1/2) * 20 = of_int m"
    using spec_score_twentieths [of p] by (rule Ints_cases)
  then have s: "spec_score p = of_int m / 20 + 1/2" by (simp add: field_simps)
  with assms have "(of_int k :: rat) < of_int m" by simp
  then have "k + 1 \<le> m" by simp
  then have "(of_int (k + 1) :: rat) \<le> of_int m" by (simp only: of_int_le_iff)
  with s show ?thesis by simp
qed

lemma probability_one:
  assumes "1 < spec_score p"
  shows "probability (predictSurvival p) = Fin 1"
proof -
  have "of_int (10 + 1) / 20 + 1/2 \<le> spec_score p"
    using assms by (intro spec_score_step) simp
  then have s: "21/20 \<le> spec_score p" by simp
  obtain y where y: "raw_score p = Fin y" "\<bar>y - spec_score p\<bar> \<le> 5/2^52"
    using raw_score_near by blast
  have "1 < y" using s y(2) unfolding abs_le_iff by simp
  then show ?thesis by (simp add: predictSurvival_raw_score clamp01_Fin y(1))
qed

text \<open>
  C21. With clamping the spec's "exactly 0.60" fails for every passenger whose male score
  is above 0.4: the female probability is then exactly 1, and the increase from the male
  probability is below 0.60 (spec section 8; for the spec's own second scenario it is about
  0.3).
\<close>

theorem predictSurvival_sex_effect_clamped:
  assumes "2/5 < spec_score (p\<lparr>Sex := Some ''male''\<rparr>)"
  shows "\<exists>a. probability (predictSurvival (p\<lparr>Sex := Some ''male''\<rparr>)) = Fin a \<and>
             probability (predictSurvival (p\<lparr>Sex := Some ''female''\<rparr>)) = Fin 1 \<and> 1 - a < 3/5"
proof -
  note fm = spec_score_female_male [of p]
  have f: "probability (predictSurvival (p\<lparr>Sex := Some ''female''\<rparr>)) = Fin 1"
    using assms fm by (intro probability_one) simp
  have "of_int (-2 + 1) / 20 + 1/2 \<le> spec_score (p\<lparr>Sex := Some ''male''\<rparr>)"
    using assms by (intro spec_score_step) simp
  then have m: "9/20 \<le> spec_score (p\<lparr>Sex := Some ''male''\<rparr>)" by simp
  obtain a where a: "probability (predictSurvival (p\<lparr>Sex := Some ''male''\<rparr>)) = Fin a"
      "\<bar>a - spec_probability (p\<lparr>Sex := Some ''male''\<rparr>)\<bar> \<le> 5/2^52"
    using probability_near by blast
  have "9/20 \<le> spec_probability (p\<lparr>Sex := Some ''male''\<rparr>)"
    using m by (simp add: spec_probability_def)
  then have "1 - a < 3/5" using a(2) unfolding abs_le_iff by simp
  with a(1) f show ?thesis by blast
qed

lemma predictSurvival_Age_cong:
  "nullable_or a (Fin 30) = nullable_or b (Fin 30) \<Longrightarrow>
   predictSurvival (p\<lparr>Age := a\<rparr>) = predictSurvival (p\<lparr>Age := b\<rparr>)"
  unfolding predictSurvival_def familySize_def pclass_is_def by (simp cong: if_cong)

lemma predictSurvival_SibSp_cong:
  "num_or a (Fin 0) = num_or b (Fin 0) \<Longrightarrow>
   predictSurvival (p\<lparr>SibSp := a\<rparr>) = predictSurvival (p\<lparr>SibSp := b\<rparr>)"
  unfolding predictSurvival_def familySize_def pclass_is_def by (simp cong: if_cong)

lemma predictSurvival_Parch_cong:
  "num_or a (Fin 0) = num_or b (Fin 0) \<Longrightarrow>
   predictSurvival (p\<lparr>Parch := a\<rparr>) = predictSurvival (p\<lparr>Parch := b\<rparr>)"
  unfolding predictSurvival_def familySize_def pclass_is_def by (simp cong: if_cong)

text \<open>
  C22. The defaults use \<open>||\<close>, which also replaces a recorded 0: a passenger of age 0 is
  scored as if 30 years old (no child bonus, although 0 < 16) and a recorded fare of 0 as a
  fare of 15 (no low-fare penalty, although 0 < 10), exactly as if the value were absent.
\<close>

theorem predictSurvival_zero_fallback:
  "predictSurvival (p\<lparr>Age := Some (JNum (Fin 0))\<rparr>) = predictSurvival (p\<lparr>Age := None\<rparr>) \<and>
   predictSurvival (p\<lparr>Fare := Some (JNum (Fin 0))\<rparr>) = predictSurvival (p\<lparr>Fare := None\<rparr>) \<and>
   age_adj (p\<lparr>Age := Some (JNum (Fin 0))\<rparr>) = Keep \<and>
   fare_adj (p\<lparr>Fare := Some (JNum (Fin 0))\<rparr>) = Keep"
  by (simp add: predictSurvival_def age_adj_def fare_adj_def nullable_or_def js_or_num_def
      familySize_def pclass_is_def Let_def)

text \<open>
  C23. Only sex, class, age, the two family counts and the fare take part: the identifier,
  the label, the name, the ticket, the cabin, the port of embarkation and any other property
  never change the prediction (spec section 4.2).
\<close>

theorem predictSurvival_irrelevant_fields:
  "predictSurvival (p\<lparr>PassengerId := a, Survived := b, Name := c, Ticket := d, Cabin := e,
                      Embarked := f, other_props := g\<rparr>) = predictSurvival p"
  by (simp add: predictSurvival_def familySize_def pclass_is_def Let_def)

subsection \<open>Witnesses\<close>

theorem predictSurvival_sex_effect_witness:
  "\<exists>a b. probability (predictSurvival (empty_passenger\<lparr>Pclass := Some (Fin 3), Sex := Some ''male''\<rparr>)) = Fin a \<and>
         probability (predictSurvival (empty_passenger\<lparr>Pclass := Some (Fin 3), Sex := Some ''female''\<rparr>)) = Fin b \<and>
         \<bar>(b - a) - 3/5\<bar> \<le> 10/2^52"
  using predictSurvival_sex_effect [of "empty_passenger\<lparr>Pclass := Some (Fin 3)\<rparr>"]
  by (simp add: spec_score_def adjustments_def sex_adj_def class_adj_def age_adj_def family_adj_def
      fare_adj_def pclass_is_def familySize_def nullable_or_def num_or_def empty_passenger_def Let_def)


theorem predictSurvival_sex_effect_clamped_witness:
  "\<exists>a. probability (predictSurvival (empty_passenger\<lparr>Pclass := Some (Fin 1), Sex := Some ''male''\<rparr>)) = Fin a \<and>
        probability (predictSurvival (empty_passenger\<lparr>Pclass := Some (Fin 1), Sex := Some ''female''\<rparr>)) = Fin 1 \<and>
        1 - a < 3/5"
  using predictSurvival_sex_effect_clamped [of "empty_passenger\<lparr>Pclass := Some (Fin 1)\<rparr>"]
  by (simp add: spec_score_def adjustments_def sex_adj_def class_adj_def age_adj_def family_adj_def
      fare_adj_def pclass_is_def familySize_def nullable_or_def num_or_def empty_passenger_def Let_def js_simps)

end
