(* ===== verification/View.thy ===== *)
theory View
  imports Predictor ScorerRules
begin

text \<open>
  What the component renders (TitanicPredictor.tsx, lines 213--439), as the texts it shows:
  the loading screen while \<open>loading\<close> (lines 213--222); otherwise the statistics cards
  when \<open>modelStats\<close> is set (lines 239--262), and the result panel when a prediction is
  set (lines 390--429): the verdict, the probability as
  \<open>(prediction.probability * 100).toFixed(1)\<close> followed by \<open>%\<close>, and the key factors
  read from the current form input. Numbers are printed by \<open>toFixed1\<close> and
  \<open>js_int_text\<close> of theory \<open>JsPrint\<close>. Markup, styles, icons, static texts and the
  bar width are left out.
\<close>

definition percent_text :: "jsnum \<Rightarrow> string option" where
  "percent_text x = map_option (\<lambda>t. t @ ''%'') (toFixed1 x)"

record stats_view =
  accuracy_text :: "string option"
  total_text :: "string option"
  survived_text :: "string option"
  perished_text :: "string option"

record result_view =
  verdict_text :: string
  probability_text :: "string option"
  factors :: "string list option"

datatype screen = LoadingScreen | MainScreen "stats_view option" "result_view option"

definition stats_card :: "model_stats \<Rightarrow> stats_view" where
  "stats_card ms = \<lparr>accuracy_text = percent_text (accuracy ms),
     total_text = js_int_text (totalPassengers ms), survived_text = js_int_text (survivedCount ms),
     perished_text = js_int_text (deathCount ms)\<rparr>"

definition key_factors :: "prediction_input \<Rightarrow> string list option" where
  "key_factors i = (
     let family = js_add (sibsp i) (parch i);
         family_text = (if js_eq family (Fin 0) then Some ''Traveling alone''
                        else map_option (\<lambda>t. ''Family of '' @ t) (js_int_text (js_add family (Fin 1))))
     in map_option (\<lambda>ft.
          [''Gender: '' @ (if sex i = ''female'' then ''Female (higher survival rate)''
                          else ''Male (lower survival rate)''),
           ''Class: '' @ (if js_eq (pclass i) (Fin 1) then ''1st Class (highest survival)''
                         else if js_eq (pclass i) (Fin 2) then ''2nd Class (moderate survival)''
                         else ''3rd Class (lowest survival)''),
           ''Age: '' @ (if js_less (age i) (Fin 16) then ''Child (higher survival)''
                       else if js_less (Fin 60) (age i) then ''Elderly (lower survival)''
                       else ''Adult''),
           ''Family: '' @ ft]) family_text)"

definition result_panel :: "prediction \<Rightarrow> prediction_input \<Rightarrow> result_view" where
  "result_panel pr i = \<lparr>verdict_text = (if survived pr then ''SURVIVED'' else ''DID NOT SURVIVE''),
     probability_text = percent_text (js_mul (probability pr) (Fin 100)),
     factors = key_factors i\<rparr>"

definition render :: "ui_state \<Rightarrow> screen" where
  "render s = (if loading s then LoadingScreen
               else MainScreen (map_option stats_card (modelStats s))
                               (map_option (\<lambda>pr. result_panel pr (input s)) (prediction s)))"

lemma spec_probability_twentieths: "\<exists>N. 1000 * spec_probability p = of_int N"
proof -
  from spec_score_twentieths [of p] obtain k where k: "(spec_score p - 1/2) * 20 = of_int k"
    by (rule Ints_cases)
  then have s: "spec_score p = of_int (k + 10) / 20" by (simp add: field_simps)
  have "spec_probability p = of_int (max 0 (min 20 (k + 10))) / 20"
    unfolding spec_probability_def s by (auto simp: max_def min_def field_simps)
  then have "1000 * spec_probability p = of_int (50 * max 0 (min 20 (k + 10)))" by simp
  then show ?thesis by blast
qed

lemma prediction_probability_range:
  "probability (predictSurvival p) = Fin r \<Longrightarrow> 0 \<le> r \<and> r \<le> 1"
  using predictSurvival_ok [of p] by (simp add: prediction_ok_def)

subsection \<open>Properties of the rendered screen\<close>

text \<open>
  C24. The percentage the result panel shows is the exact-arithmetic probability of the
  scorer's rules to one decimal (spec section 4.3, "one decimal place expected at display time"): the double
  arithmetic of the scorer and of \<open>probability * 100\<close> never changes a displayed digit.
\<close>

theorem result_panel_probability_text:
  "probability_text (result_panel (predictSurvival p) i) =
   Some (decimal1 (nat \<lfloor>1000 * spec_probability p\<rfloor>) @ ''%'')"
proof -
  obtain r where r: "probability (predictSurvival p) = Fin r" "\<bar>r - spec_probability p\<bar> \<le> 5/2^52"
    using probability_near by blast
  have r01: "0 \<le> r" "r \<le> 1" using prediction_probability_range [OF r(1)] by simp_all
  have "\<bar>r * 100\<bar> < power_int 2 7" using r01 by simp
  from fround_err [OF this] have x: "fround (r * 100) = Fin (round_rat (r * 100))"
    "\<bar>round_rat (r * 100) - r * 100\<bar> \<le> power_int 2 (7 - 54)" by simp_all
  define y where "y = round_rat (r * 100)"
  have e1: "\<bar>y - r * 100\<bar> \<le> 1/2^47"
    using x(2) pow2_neg_numeral [of "num.Bit1 (num.Bit1 (num.Bit1 (num.Bit1 (num.Bit0 num.One))))"]
    by (simp add: y_def)
  have y0: "0 \<le> y" unfolding y_def using r01 by (simp add: round_rat_nonneg)
  have y1: "y < 10 ^ 21" using e1 r01 unfolding abs_le_iff by simp
  obtain N where N: "1000 * spec_probability p = of_int N" using spec_probability_twentieths by blast
  have e1n: "\<bar>y - r * 100\<bar> \<le> 1/140737488355328" using e1 by simp
  have e2n: "\<bar>r - spec_probability p\<bar> \<le> 5/4503599627370496" using r(2) by simp
  have "\<bar>y * 10 - 1000 * spec_probability p\<bar> < 1/2"
    using e1n e2n unfolding abs_le_iff abs_less_iff by linarith
  then have near: "\<bar>y * 10 - of_int N\<bar> < 1/2" unfolding N .
  have "\<lfloor>y * 10 + 1/2\<rfloor> = N"
    using near unfolding floor_eq_iff abs_less_iff by simp
  then have "toFixed1 (Fin y) = Some (decimal1 (nat N))" using toFixed1_nonneg [OF y0 y1] by simp
  then show ?thesis
    using r(1) x(1) N by (simp add: result_panel_def percent_text_def y_def)
qed

lemma ui_step_keeps_not_loading: "\<not> loading s \<Longrightarrow> ui_step s e = Some s' \<Longrightarrow> \<not> loading s'"
  by (cases e) (auto simp: handlePredict_def split: if_splits)

lemma run_keeps_not_loading: "\<not> loading s \<Longrightarrow> run s es = Some s' \<Longrightarrow> \<not> loading s'"
  by (induction es arbitrary: s) (auto split: option.splits dest: ui_step_keeps_not_loading)

lemma ui_step_keeps_prediction:
  "ui_step s e = Some s' \<Longrightarrow> e \<noteq> Predict \<Longrightarrow> prediction s' = prediction s"
  by (cases e) (auto simp: loadData_fields split: if_splits)

lemma run_keeps_prediction:
  "run s es = Some s' \<Longrightarrow> Predict \<notin> set es \<Longrightarrow> prediction s' = prediction s"
  by (induction es arbitrary: s) (auto split: option.splits dest: ui_step_keeps_prediction)

text \<open>
  C25. The loading screen is shown exactly until the first event, the completion of the
  load, and a result panel only after the user has pressed "Predict" (spec section 7,
  user-visible behaviour).
\<close>

theorem run_render_screens:
  assumes "run initial_state es = Some s"
  shows "(render s = LoadingScreen \<longleftrightarrow> es = []) \<and>
         ((\<exists>st rv. render s = MainScreen st (Some rv)) \<longrightarrow> Predict \<in> set es)"
proof
  show "render s = LoadingScreen \<longleftrightarrow> es = []"
  proof (cases es)
    case Nil
    with assms show ?thesis by (auto simp: render_def initial_state_def)
  next
    case (Cons e es')
    with assms obtain s1 where s1: "ui_step initial_state e = Some s1" "run s1 es' = Some s"
      by (auto split: option.splits)
    have "loading initial_state" by (simp add: initial_state_def)
    with s1(1) have "\<not> loading s1" using loadData_fields by (cases e) (auto split: if_splits)
    then have "\<not> loading s" using s1(2) by (rule run_keeps_not_loading)
    with Cons show ?thesis by (simp add: render_def)
  qed
next
  show "(\<exists>st rv. render s = MainScreen st (Some rv)) \<longrightarrow> Predict \<in> set es"
  proof
    assume "\<exists>st rv. render s = MainScreen st (Some rv)"
    then have some: "prediction s \<noteq> None" by (auto simp: render_def split: if_splits)
    show "Predict \<in> set es"
    proof (rule ccontr)
      assume "Predict \<notin> set es"
      with run_keeps_prediction [OF assms] have "prediction s = None" by (simp add: initial_state_def)
      with some show False by simp
    qed
  qed
qed

text \<open>
  C26. The key factors are read from the current form, not from the input of the prediction
  they explain: after any run that pressed "Predict" and then only edited the form, the
  verdict and the percentage are those of the form as it was when "Predict" was pressed,
  while the factors describe the form as it is now, so that an edit after predicting shows
  factors that contradict the displayed verdict.
\<close>

theorem render_stale_factors:
  assumes "run initial_state (es1 @ Predict # es2) = Some s" "Predict \<notin> set es2"
  shows "\<exists>s0. run initial_state es1 = Some s0 \<and>
           render s = MainScreen (map_option stats_card (modelStats s))
             (Some (result_panel (predictSurvival (handlePredict_passenger (input s0))) (input s)))"
proof -
  obtain s0 where s0: "run initial_state es1 = Some s0" "run s0 (Predict # es2) = Some s"
    using assms(1) by (auto simp: run_append split: option.splits)
  then obtain s1 where s1: "ui_step s0 Predict = Some s1" "run s1 es2 = Some s"
    by (auto split: option.splits)
  then have nl: "\<not> loading s1" and p1: "prediction s1 = Some (predictSurvival (handlePredict_passenger (input s0)))"
    by (auto simp: handlePredict_def split: if_splits)
  have "\<not> loading s" using run_keeps_not_loading [OF nl s1(2)] .
  moreover have "prediction s = prediction s1" using run_keeps_prediction [OF s1(2) assms(2)] .
  ultimately show ?thesis using s0(1) p1 by (simp add: render_def)
qed

text \<open>
  C27. The age factor compares the typed age itself while the scorer replaces 0 by 30: for
  every form with age 0 the panel names the child factor, yet the prediction is exactly the
  one for an adult of 30.
\<close>

theorem render_age_zero:
  assumes "age i = Fin 0"
  shows "(case key_factors i of None \<Rightarrow> True | Some fs \<Rightarrow> fs ! 2 = ''Age: Child (higher survival)'') \<and>
         predictSurvival (handlePredict_passenger i) = predictSurvival (handlePredict_passenger (i\<lparr>age := Fin 30\<rparr>))"
proof
  show "case key_factors i of None \<Rightarrow> True | Some fs \<Rightarrow> fs ! 2 = ''Age: Child (higher survival)''"
    using assms by (simp add: key_factors_def Let_def js_simps split: option.split)
next
  have h0: "handlePredict_passenger i = (handlePredict_passenger i)\<lparr>Age := Some (JNum (Fin 0))\<rparr>"
    using assms by (simp add: handlePredict_passenger_def)
  have h30: "handlePredict_passenger (i\<lparr>age := Fin 30\<rparr>) = (handlePredict_passenger i)\<lparr>Age := Some (JNum (Fin 30))\<rparr>"
    by (simp add: handlePredict_passenger_def)
  have "nullable_or (Some (JNum (Fin 0))) (Fin 30) = nullable_or (Some (JNum (Fin 30))) (Fin 30)"
    by (simp add: nullable_or_def js_or_num_def js_simps)
  then show "predictSurvival (handlePredict_passenger i) = predictSurvival (handlePredict_passenger (i\<lparr>age := Fin 30\<rparr>))"
    by (subst h0, subst h30) (rule predictSurvival_Age_cong)
qed

lemma parseCSV_header_only: "newline_char \<notin> set (js_trim t) \<Longrightarrow> parseCSV t = []"
  by (simp add: parseCSV_def Let_def js_split_single)

text \<open>
  C28. A file with a header line and no rows (or with nothing but white space) yields
  statistics cards showing 0 passengers, 0 survived, 0 perished and an accuracy of
  \<open>"NaN%"\<close>, whatever its header holds.
\<close>

theorem render_empty_dataset:
  assumes "newline_char \<notin> set (js_trim t)"
  shows "render (loadData (FetchOk t) initial_state) =
         MainScreen (Some \<lparr>accuracy_text = Some ''NaN%'', total_text = Some ''0'', survived_text = Some ''0'',
                           perished_text = Some ''0''\<rparr>) None"
  using parseCSV_header_only [OF assms] loadData_fields [of "FetchOk t" initial_state]
  by (simp add: render_def calculateModelStats_Nil stats_card_def percent_text_def toFixed1_def js_int_text_def string_of_nat_0 initial_state_def)

subsection \<open>Witnesses\<close>

theorem run_render_screens_witness:
  "render \<lparr>data = [], modelStats = None, prediction = Some \<lparr>probability = fround (1/10), survived = False\<rparr>,
           loading = False, input = default_input\<rparr> \<noteq> LoadingScreen"
  using run_render_screens [OF run_failed_predict] by simp

theorem render_stale_factors_witness:
  "render \<lparr>data = [], modelStats = None, prediction = Some (predictSurvival (handlePredict_passenger default_input)),
           loading = False, input = default_input\<lparr>sex := ''female''\<rparr>\<rparr> =
   MainScreen None (Some (result_panel (predictSurvival (handlePredict_passenger default_input))
     (default_input\<lparr>sex := ''female''\<rparr>)))"
proof -
  have r: "run initial_state ([LoadDone FetchFailed] @ Predict # [FormChange (SetSex ''female'')]) =
    Some \<lparr>data = [], modelStats = None, prediction = Some (predictSurvival (handlePredict_passenger default_input)),
          loading = False, input = default_input\<lparr>sex := ''female''\<rparr>\<rparr>"
    by (simp add: initial_state_def loadData_def handlePredict_def)
  show ?thesis using render_stale_factors [OF r] by (simp add: initial_state_def loadData_def)
qed

theorem render_age_zero_witness:
  "map_option (\<lambda>fs. fs ! 2) (key_factors (default_input\<lparr>age := Fin 0\<rparr>)) = Some ''Age: Child (higher survival)'' \<and>
   predictSurvival (handlePredict_passenger (default_input\<lparr>age := Fin 0\<rparr>)) =
   predictSurvival (handlePredict_passenger default_input)"
proof -
  have k: "key_factors (default_input\<lparr>age := Fin 0\<rparr>) \<noteq> None"
    by (simp add: key_factors_def Let_def default_input_def js_simps)
  have d: "default_input\<lparr>age := Fin 0\<rparr>\<lparr>age := Fin 30\<rparr> = default_input" by (simp add: default_input_def)
  show ?thesis using render_age_zero [of "default_input\<lparr>age := Fin 0\<rparr>"] k
    by (auto simp: d split: option.splits)
qed

theorem render_empty_dataset_witness:
  "render (loadData (FetchOk ''PassengerId,Survived'') initial_state) =
   MainScreen (Some \<lparr>accuracy_text = Some ''NaN%'', total_text = Some ''0'', survived_text = Some ''0'',
                     perished_text = Some ''0''\<rparr>) None"
  using render_empty_dataset [of "''PassengerId,Survived''"] by (simp add: js_trim_def js_ws_def)

end
