(* ===== verification/Spec2Isabelle.thy ===== *)
theory Spec2Isabelle
  imports View ScorerRules
begin

text \<open>
  \<^bold>\<open>Verification of the Titanic survival predictor.\<close>
  The program is one React component, src/src/components/TitanicPredictor.tsx. It fetches
  a CSV file once, parses it into passenger records (\<open>parseCSV\<close>, \<open>parseCSVLine\<close>),
  summarises them (\<open>calculateModelStats\<close>), and lets the user fill in a form whose
  values a rule-based scorer (\<open>predictSurvival\<close>) turns into a survival probability and
  verdict. The scorer is called both by the summary (once per record, to count agreements
  with the label) and by the form's button (\<open>handlePredict\<close>); the view prints the
  summary, the verdict, the percentage and key factors read from the form.

  \<^bold>\<open>Theories.\<close>
  \<^item> \<open>Prelude\<close>: the characters the parser tests, \<open>nth_opt\<close> for an array read
    that may be out of range, \<open>join_with\<close>, and inequalities on absolute values and on
    the clamp to [0, 1] shared by the error proofs.
  \<^item> \<open>Binary64\<close>: IEEE-754 double rounding on \<open>rat\<close>, round to nearest, ties to
    even (\<open>binade\<close>, \<open>rne\<close>, \<open>round_at\<close>, \<open>quantum\<close>, \<open>round_rat\<close>), with
    monotonicity, exactness on small integers and the error bound \<open>round_rat_err\<close>.
  \<^item> \<open>JsNumber\<close>: the Number type (\<open>Fin\<close> a double, \<open>NaN\<close>, the infinities;
    the two zeros are merged, which no operation of the program can tell apart) and the
    operators the code uses: \<open>+ - * /\<close>, \<open><\<close>, \<open>>=\<close>, \<open>===\<close>, \<open>||\<close>,
    \<open>Math.min\<close>, \<open>Math.max\<close>; \<open>fround\<close> rounds an exact result and overflows to an
    infinity.
  \<^item> \<open>JsString\<close>: \<open>trim\<close>, \<open>split\<close> with one separator, \<open>replace(/"/g, '')\<close>,
    \<open>parseInt\<close> and \<open>parseFloat\<close>, on the code units below 256.
  \<^item> \<open>JsPrint\<close>: printing Numbers (\<open>toFixed(1)\<close>, \<open>Number::toString\<close> of integral
    values) and reading digits and decimal fractions back with \<open>parseInt\<close> and
    \<open>parseFloat\<close>.
  \<^item> \<open>Interfaces\<close>: the interfaces \<open>Passenger\<close>, \<open>ModelStats\<close>,
    \<open>PredictionInput\<close> and the scorer's result as records; an absent property is
    \<open>None\<close>, a \<open>number | null\<close> property a \<open>nullable_num\<close>.
  \<^item> \<open>Scorer\<close>: \<open>predictSurvival\<close> (lines 148--198) with every step in Number
    arithmetic, its reading as a fold of five adjustments (\<open>raw_score\<close>), and the same
    rules in exact arithmetic (\<open>spec_score\<close>, \<open>spec_probability\<close>). This reference
    keeps the code's \<open>||\<close> guards, so it measures the double arithmetic, not conformance
    to spec section 4.2; the differences from the spec are theorems of \<open>ScorerRules\<close>.
  \<^item> \<open>ScorerRules\<close>: properties of single rules (the sex effect with and without
    clamping, the zero fallback, the attributes that take part).
  \<^item> \<open>CsvParser\<close>: \<open>parseCSVLine\<close> as its \<open>for\<close> loop (\<open>while_option\<close> over
    the loop state), \<open>parseCSV\<close> with the \<open>forEach\<close> over the headers
    (\<open>assign_columns\<close>) and the \<open>switch\<close> (\<open>assign_field\<close>), and reference readings
    (\<open>parseCSVLine_loop\<close>, \<open>csv_fields\<close>, \<open>passenger_of_props\<close>).
  \<^item> \<open>Summarizer\<close>: \<open>calculateModelStats\<close> (lines 122--145), the \<open>forEach\<close>
    counter as \<open>count_correct\<close>, and the accuracy contract \<open>spec_agrees\<close>.
  \<^item> \<open>Predictor\<close>: the component as a state machine. Its React state (lines 37--50) is
    the record \<open>ui_state\<close>; the events are the completion of the load effect
    (\<open>LoadDone\<close>, lines 53--69, with the fetch outcome), the form's \<open>onChange\<close>
    handlers (\<open>FormChange\<close>, lines 280--365) and the button (\<open>Predict\<close>,
    \<open>handlePredict\<close>, lines 200--211); \<open>ui_step\<close> is one event, refused while the
    loading screen hides the form and, for the load, once loading has ended; \<open>run\<close> a
    sequence of events; \<open>reachable\<close> the inductive closure, equal to the states of runs.
  \<^item> \<open>View\<close>: what \<open>render\<close> shows (lines 213--429) as texts.
  \<^item> This theory: the pipeline across components, from the fetched text to the summary.

  \<^bold>\<open>What is proved.\<close>
  The scorer returns a probability in [0, 1] for every record (absent, \<open>null\<close>,
  \<open>NaN\<close> and infinite values included); its double arithmetic is within
  \<open>5 * 2^-52\<close> of the same rules in exact arithmetic, never changes the verdict (the five
  attribute combinations scoring exactly 0.5 also give 0.5 in doubles, checked by
  evaluation), and never changes the displayed percentage. The CSV line splitter
  round-trips quoted fields, never returns a quote, and agrees with \<open>split(',')\<close> on
  lines without quotes; \<open>parseCSV\<close> maps columns by header name, returns one record per
  line after the header, none for blank text, and integer columns that are never
  \<open>NaN\<close>. The summary counts are exact below \<open>2^53\<close> records, the accuracy lies in
  [0, 100] and is the agreement rate up to \<open>2^-45\<close>. Every run of the component keeps the
  invariant \<open>ui_inv\<close> (no data while loading, a summary equal to
  \<open>calculateModelStats\<close> of the records, a prediction in [0, 1] with a consistent
  verdict), ends loading on the load's completion, never changes the records afterwards,
  and shows a result only after "Predict". General theorems document the findings:
  recorded 0 ages and fares replaced by the fallbacks, the clamp breaking the spec's
  "exactly 0.60", the form truncating a decimal age that the dataset keeps, CRLF files
  losing their last column, key factors read from the current form rather than from the
  predicted input, the child factor shown for age 0, \<open>NaN%\<close> for a file without rows,
  and a cleared count field of the form scored as 0 rather than skipped.

  \<^bold>\<open>Bounds.\<close>
  No fuel is used: every loop is a structural recursion or a \<open>while_option\<close> proved to
  stop. The error bounds come from the magnitudes involved: every partial score is below 2
  in magnitude (1/2 plus adjustments summing to at most 0.85), so each addition rounds with
  error at most \<open>2^-53\<close> and each decimal literal below 1 with \<open>2^-54\<close>, five
  additions giving \<open>5 * 2^-52\<close>; since the exact score is a multiple of 1/20, this is
  far from any threshold. Counts are exact below \<open>2^53\<close>, the largest range of
  consecutive integers a double holds; the hypothesis is stated in each theorem.

  \<^bold>\<open>Not modelled.\<close>
  The HTTP transport (a fetch is an outcome \<open>FetchOk\<close> body or \<open>FetchFailed\<close>;
  the response status is not represented, so the missing \<open>response.ok\<close> check is a
  finding without a theorem), \<open>console.error\<close>, React's scheduling (each event sees the
  state the previous one produced), CSS, icons, static texts, the About section (lines
  440--472), the bar width (printing a non-integral Number needs the shortest-digit
  algorithm of \<open>Number::toString\<close>, where \<open>toFixed1\<close> and \<open>js_int_text\<close> return
  \<open>None\<close>), and string code units above 255.
\<close>

lemma run_frozen_from:
  "\<not> loading s \<Longrightarrow> run s es = Some s' \<Longrightarrow> data s' = data s \<and> modelStats s' = modelStats s"
proof (induction es arbitrary: s)
  case (Cons e es)
  then obtain s1 where "ui_step s e = Some s1" "run s1 es = Some s'" by (auto split: option.splits)
  with Cons.prems(1) Cons.IH [of s1] ui_step_frozen [of s e s1] show ?case by simp
qed simp

text \<open>
  C29. The whole pipeline: once the fetched text \<open>t\<close> is loaded, whatever the user does
  afterwards, the component holds the records \<open>parseCSV t\<close>, and the summary it shows
  counts them exactly and gives, up to \<open>2^-45\<close>, the percentage of records whose label
  the scorer's rules, evaluated in exact arithmetic, predict.
\<close>

theorem load_pipeline:
  assumes "run initial_state (LoadDone (FetchOk t) # es) = Some s" "modelStats s = Some ms"
    and "0 < length (parseCSV t)" "length (parseCSV t) < 2 ^ 53"
  shows "data s = parseCSV t \<and> totalPassengers ms = Fin (of_nat (length (parseCSV t))) \<and>
         (\<exists>a. accuracy ms = Fin a \<and>
              \<bar>a - 100 * of_nat (length (filter spec_agrees (parseCSV t))) / of_nat (length (parseCSV t))\<bar>
                \<le> 1/2^45)"
proof -
  let ?s1 = "loadData (FetchOk t) initial_state"
  have run1: "run ?s1 es = Some s" using assms(1) by (simp add: initial_state_def)
  have s1: "data ?s1 = parseCSV t" "modelStats ?s1 = Some (calculateModelStats (parseCSV t))"
    "\<not> loading ?s1"
    using loadData_fields [of "FetchOk t" initial_state] by simp_all
  from run_frozen_from [OF s1(3) run1] s1(1,2) assms(2)
  have d: "data s = parseCSV t" and m: "ms = calculateModelStats (parseCSV t)" by simp_all
  have "filter prediction_correct (parseCSV t) = filter spec_agrees (parseCSV t)"
    by (rule filter_cong) (simp_all add: prediction_correct_spec)
  then show ?thesis
    using d m accuracy_near [OF assms(3,4)] calculateModelStats_total [OF assms(4)] by auto
qed

lemma parseInt_Nil: "parseInt [] = NaN"
  by (simp add: parseInt_def)

lemma num_or_NaN: "num_or (Some NaN) (Fin 0) = num_or (Some (Fin 0)) (Fin 0)"
  by (simp add: num_or_def js_or_num_def js_simps)

text \<open>
  C30. A cleared count field of the form is not skipped by the scorer: \<open>parseInt('')\<close>
  stores \<open>NaN\<close> (lines 340 and 352), and the scorer's \<open>|| 0\<close> (line 176) turns it into
  0, so for every form the prediction is exactly the one for a count of 0; the family rule
  still adds 0.05 for one parent or child. Spec section 7 (c) says a malformed numeric
  field fails every threshold test and contributes nothing.
\<close>

theorem form_blank_count:
  "predictSurvival (handlePredict_passenger (apply_form_event (SetSibsp []) i)) =
     predictSurvival (handlePredict_passenger (i\<lparr>sibsp := Fin 0\<rparr>)) \<and>
   predictSurvival (handlePredict_passenger (apply_form_event (SetParch []) i)) =
     predictSurvival (handlePredict_passenger (i\<lparr>parch := Fin 0\<rparr>))"
proof
  have "handlePredict_passenger (apply_form_event (SetSibsp []) i) =
          (handlePredict_passenger i)\<lparr>SibSp := Some NaN\<rparr>"
       "handlePredict_passenger (i\<lparr>sibsp := Fin 0\<rparr>) = (handlePredict_passenger i)\<lparr>SibSp := Some (Fin 0)\<rparr>"
    by (simp_all add: handlePredict_passenger_def parseInt_Nil)
  then show "predictSurvival (handlePredict_passenger (apply_form_event (SetSibsp []) i)) =
     predictSurvival (handlePredict_passenger (i\<lparr>sibsp := Fin 0\<rparr>))"
    using predictSurvival_SibSp_cong [OF num_or_NaN] by simp
next
  have "handlePredict_passenger (apply_form_event (SetParch []) i) =
          (handlePredict_passenger i)\<lparr>Parch := Some NaN\<rparr>"
       "handlePredict_passenger (i\<lparr>parch := Fin 0\<rparr>) = (handlePredict_passenger i)\<lparr>Parch := Some (Fin 0)\<rparr>"
    by (simp_all add: handlePredict_passenger_def parseInt_Nil)
  then show "predictSurvival (handlePredict_passenger (apply_form_event (SetParch []) i)) =
     predictSurvival (handlePredict_passenger (i\<lparr>parch := Fin 0\<rparr>))"
    using predictSurvival_Parch_cong [OF num_or_NaN] by simp
qed

theorem load_pipeline_witness:
  "\<exists>a. accuracy (calculateModelStats (parseCSV ''Survived\<newline>1'')) = Fin a \<and>
       \<bar>a - 100 * of_nat (length (filter spec_agrees (parseCSV ''Survived\<newline>1'')))\<bar> \<le> 1/2^45"
proof -
  have r: "run initial_state [LoadDone (FetchOk ''Survived\<newline>1'')] =
           Some (loadData (FetchOk ''Survived\<newline>1'') initial_state)"
    by (simp add: initial_state_def)
  have m: "modelStats (loadData (FetchOk ''Survived\<newline>1'') initial_state) =
           Some (calculateModelStats (parseCSV ''Survived\<newline>1''))"
    using loadData_fields by simp
  have l: "length (parseCSV ''Survived\<newline>1'') = 1"
    by (simp add: parseCSV_def Let_def length_js_split js_trim_def js_ws_def)
  from load_pipeline [OF r m] l show ?thesis by simp
qed

end
